theory Spec2Isabelle
  imports Complex_Main
begin

section \<open>Text primitives\<close>

text \<open>
  A Python \<open>str\<close> is modelled as a \<open>string\<close> whose characters are the code points
  below 256. The track files are plain ASCII; the classification of characters below
  follows Python for every code point in that range.
\<close>

definition newline :: char where
  "newline = CHR 0x0A"

text \<open>The characters matched by \<open>\d\<close> in a \<open>str\<close> pattern (general category Nd).\<close>

definition isdecimal :: "char \<Rightarrow> bool" where
  "isdecimal c = (c \<in> set ''0123456789'')"

text \<open>
  \<open>str.isdigit\<close> on one character: the decimal digits and the superscript digits
  (code points 0xB2, 0xB3, 0xB9).
\<close>

definition isdigit_char :: "char \<Rightarrow> bool" where
  "isdigit_char c = (isdecimal c \<or> c \<in> set [CHR 0xB2, CHR 0xB3, CHR 0xB9])"

text \<open>\<open>s.isdigit()\<close>: every character is a digit and there is at least one.\<close>

definition isdigit :: "string \<Rightarrow> bool" where
  "isdigit s = (s \<noteq> [] \<and> list_all isdigit_char s)"

text \<open>\<open>str.isspace\<close> on one character; these are the characters \<open>strip()\<close> removes.\<close>

definition isspace :: "char \<Rightarrow> bool" where
  "isspace c = (c \<in> set [CHR 0x09, CHR 0x0A, CHR 0x0B, CHR 0x0C, CHR 0x0D,
                          CHR 0x1C, CHR 0x1D, CHR 0x1E, CHR 0x1F, CHR 0x20,
                          CHR 0x85, CHR 0xA0])"

definition rstrip_with :: "(char \<Rightarrow> bool) \<Rightarrow> string \<Rightarrow> string" where
  "rstrip_with p s = rev (dropWhile p (rev s))"

text \<open>\<open>s.strip()\<close>\<close>

definition strip :: "string \<Rightarrow> string" where
  "strip s = rstrip_with isspace (dropWhile isspace s)"

text \<open>\<open>s.rstrip("\n")\<close>\<close>

definition rstrip_nl :: "string \<Rightarrow> string" where
  "rstrip_nl s = rstrip_with (\<lambda>c. c = newline) s"

text \<open>\<open>s.split(",")\<close>: never empty, one more field than there are commas.\<close>

fun split_comma :: "string \<Rightarrow> string list" where
  "split_comma [] = [[]]"
| "split_comma (c # cs) =
     (if c = CHR '','' then [] # split_comma cs
      else (case split_comma cs of
              [] \<Rightarrow> [[c]]
            | f # fs \<Rightarrow> (c # f) # fs))"

text \<open>\<open>sep.join(xs)\<close>\<close>

fun join :: "string \<Rightarrow> string list \<Rightarrow> string" where
  "join sep [] = []"
| "join sep [x] = x"
| "join sep (x # y # ys) = x @ sep @ join sep (y # ys)"

text \<open>
  Case conversion of one character. Within the code points below 256 lowering is
  closed; the upper case of 0xB5, 0xDF and 0xFF lies outside and is left as it is,
  which no comparison in the program can observe (all of them are against ASCII
  letters).
\<close>

definition lower_char :: "char \<Rightarrow> char" where
  "lower_char c =
     (let n = (of_char c :: nat)
      in if (65 \<le> n \<and> n \<le> 90) \<or> (192 \<le> n \<and> n \<le> 222 \<and> n \<noteq> 215)
         then char_of (n + 32) else c)"

definition upper_char :: "char \<Rightarrow> char" where
  "upper_char c =
     (let n = (of_char c :: nat)
      in if (97 \<le> n \<and> n \<le> 122) \<or> (224 \<le> n \<and> n \<le> 254 \<and> n \<noteq> 247)
         then char_of (n - 32) else c)"

definition lower :: "string \<Rightarrow> string" where
  "lower s = map lower_char s"

definition upper :: "string \<Rightarrow> string" where
  "upper s = map upper_char s"

text \<open>
  The iteration \<open>for line in f\<close> over a text file: each line keeps its terminating
  newline, the last line may lack one, and an empty file has no line. The text is the
  file's content after newline translation.
\<close>

fun file_lines :: "string \<Rightarrow> string list" where
  "file_lines [] = []"
| "file_lines (c # cs) =
     (if c = newline then [c] # file_lines cs
      else (case file_lines cs of
              [] \<Rightarrow> [[c]]
            | l # ls \<Rightarrow> (c # l) # ls))"

text \<open>
  \<open>re.match(r"^\d{8},", line)\<close>: eight decimal digits at the start of the line and a
  comma right after them.
\<close>

definition date_line :: "string \<Rightarrow> bool" where
  "date_line line =
     (9 \<le> length line \<and> list_all isdecimal (take 8 line) \<and> line ! 8 = CHR '','')"

section \<open>Floating-point values\<close>

text \<open>
  A Python \<open>float\<close> is modelled by its exact value: a rational number, one of the two
  infinities, or NaN. Rounding to binary64, overflow to infinity and the sign of zero
  are not modelled; negation, absolute value and comparison, the only operations the
  program applies on the client side, are exact in binary64.
\<close>

datatype pyfloat = Fin rat | PInf | NInf | NaN

fun fneg :: "pyfloat \<Rightarrow> pyfloat" where
  "fneg (Fin q) = Fin (- q)"
| "fneg PInf = NInf"
| "fneg NInf = PInf"
| "fneg NaN = NaN"

fun fabs :: "pyfloat \<Rightarrow> pyfloat" where
  "fabs (Fin q) = Fin \<bar>q\<bar>"
| "fabs PInf = PInf"
| "fabs NInf = PInf"
| "fabs NaN = NaN"

text \<open>\<open>a == b\<close> on floats: NaN equals nothing, itself included.\<close>

definition feq :: "pyfloat \<Rightarrow> pyfloat \<Rightarrow> bool" where
  "feq a b = (a \<noteq> NaN \<and> b \<noteq> NaN \<and> a = b)"

datatype py_error = ValueError | IndexError | OverflowError | RuntimeError | EEException

text \<open>The value of a string of decimal digits, most significant first.\<close>

definition digit_val :: "char \<Rightarrow> nat" where
  "digit_val c = of_char c - 48"

definition digits_val :: "string \<Rightarrow> nat" where
  "digits_val ds = foldl (\<lambda>n c. 10 * n + digit_val c) 0 ds"

text \<open>The decimal rendering of a natural number, without leading zeros.\<close>

definition digit_char :: "nat \<Rightarrow> char" where
  "digit_char n = char_of (48 + n mod 10)"

function show_nat :: "nat \<Rightarrow> string" where
  "show_nat n = (if n < 10 then [digit_char n] else show_nat (n div 10) @ [digit_char n])"
  by pat_completeness auto
termination
  by (relation "measure id") auto

declare show_nat.simps [simp del]

text \<open>
  The whitespace that \<open>float\<close> and \<open>int\<close> drop around a numeral: the six ASCII
  blanks and, of the code points from 128 on, the two that are spaces. The
  separators 0x1C to 0x1F, which \<open>strip()\<close> removes, are not among them.
\<close>

definition numeric_space :: "char \<Rightarrow> bool" where
  "numeric_space c = (c \<in> set [CHR 0x09, CHR 0x0A, CHR 0x0B, CHR 0x0C, CHR 0x0D, CHR 0x20,
                                  CHR 0x85, CHR 0xA0])"

definition numeric_strip :: "string \<Rightarrow> string" where
  "numeric_strip s = rstrip_with numeric_space (dropWhile numeric_space s)"

text \<open>
  Underscores in a numeric literal: each must stand between two decimal digits.
  The first argument is the preceding character, if any.
\<close>

fun underscores_ok :: "char option \<Rightarrow> string \<Rightarrow> bool" where
  "underscores_ok prev [] = (prev \<noteq> Some (CHR ''_''))"
| "underscores_ok prev (c # cs) =
     ((if c = CHR ''_'' then (case prev of None \<Rightarrow> False | Some p \<Rightarrow> isdecimal p)
       else (prev = Some (CHR ''_'') \<longrightarrow> isdecimal c))
      \<and> underscores_ok (Some c) cs)"

text \<open>An optional sign: whether it is a minus, and the rest.\<close>

fun split_sign :: "string \<Rightarrow> bool \<times> string" where
  "split_sign [] = (False, [])"
| "split_sign (c # cs) =
     (if c = CHR ''-'' then (True, cs)
      else if c = CHR ''+'' then (False, cs)
      else (False, c # cs))"

text \<open>
  The exponent part of a float literal: nothing, or \<open>e\<close>/\<open>E\<close>, an optional sign and at
  least one digit.
\<close>

definition exponent :: "string \<Rightarrow> int option" where
  "exponent s =
     (case s of
        [] \<Rightarrow> Some 0
      | c # r \<Rightarrow>
          if c = CHR ''e'' \<or> c = CHR ''E'' then
            (case split_sign r of
               (neg, ds) \<Rightarrow>
                 if ds \<noteq> [] \<and> list_all isdecimal ds
                 then Some (if neg then - int (digits_val ds) else int (digits_val ds))
                 else None)
          else None)"

text \<open>
  An unsigned float literal: digits, an optional point and more digits (at least one
  digit in all), and an optional exponent.
\<close>

definition float_number :: "string \<Rightarrow> rat option" where
  "float_number s =
     (let ip = takeWhile isdecimal s;
          r1 = dropWhile isdecimal s;
          fp = (case r1 of [] \<Rightarrow> [] | c # r \<Rightarrow> if c = CHR ''.'' then takeWhile isdecimal r else []);
          r2 = (case r1 of [] \<Rightarrow> [] | c # r \<Rightarrow> if c = CHR ''.'' then dropWhile isdecimal r else r1)
      in if ip = [] \<and> fp = [] then None
         else (case exponent r2 of
                 None \<Rightarrow> None
               | Some e \<Rightarrow>
                   Some (of_nat (digits_val (ip @ fp)) * 10 powi (e - int (length fp)))))"

text \<open>
  \<open>float(s)\<close> for a string: surrounding whitespace is dropped, underscores between
  digits are ignored, then comes an optional sign and either \<open>inf\<close>, \<open>infinity\<close>, \<open>nan\<close>
  (in any case) or a float literal. Anything else raises \<open>ValueError\<close>.
\<close>

definition py_float :: "string \<Rightarrow> py_error + pyfloat" where
  "py_float s =
     (let t = numeric_strip s
      in if \<not> underscores_ok None t then Inl ValueError
         else (case split_sign (filter (\<lambda>c. c \<noteq> CHR ''_'') t) of
                 (neg, body) \<Rightarrow>
                   if lower body = ''inf'' \<or> lower body = ''infinity''
                   then Inr (if neg then NInf else PInf)
                   else if lower body = ''nan'' then Inr NaN
                   else (case float_number body of
                           None \<Rightarrow> Inl ValueError
                         | Some q \<Rightarrow> Inr (Fin (if neg then - q else q)))))"

text \<open>
  \<open>int(s)\<close> for a string, in base 10: surrounding whitespace is dropped, then comes
  an optional sign and at least one digit, with single underscores allowed between
  digits. Anything else, the empty string included, raises \<open>ValueError\<close>.
\<close>

definition py_int :: "string \<Rightarrow> py_error + int" where
  "py_int s =
     (case split_sign (numeric_strip s) of
        (neg, body) \<Rightarrow>
          if body \<noteq> [] \<and> underscores_ok None body
             \<and> list_all (\<lambda>c. isdecimal c \<or> c = CHR ''_'') body
          then (let n = int (digits_val (filter (\<lambda>c. c \<noteq> CHR ''_'') body))
                in Inr (if neg then - n else n))
          else Inl ValueError)"

section \<open>Coordinate parser\<close>

text \<open>
  \<open>parse_latlon\<close> (the same text in \<open>extract_sst.py\<close> and \<open>extract_HYCOM_sst.py\<close>):
  \<^verbatim>\<open>v, hemi = float(token[:-1]), token[-1].upper()\<close>,
  \<^verbatim>\<open>return v if hemi in ("N", "E") else -v\<close>.
  The float conversion runs first; \<open>token[-1]\<close> raises \<open>IndexError\<close> on the empty token.
\<close>

definition parse_latlon :: "string \<Rightarrow> py_error + pyfloat" where
  "parse_latlon token =
     (case py_float (butlast token) of
        Inl e \<Rightarrow> Inl e
      | Inr v \<Rightarrow>
          (case token of
             [] \<Rightarrow> Inl IndexError
           | _ \<Rightarrow>
               (let hemi = upper [last token]
                in if hemi \<in> set [''N'', ''E''] then Inr v else Inr (fneg v))))"

section \<open>Calendar dates\<close>

datatype date = Date (year: nat) (month: nat) (day: nat)

definition is_leap :: "nat \<Rightarrow> bool" where
  "is_leap y = (y mod 4 = 0 \<and> (y mod 100 \<noteq> 0 \<or> y mod 400 = 0))"

definition days_in_month :: "nat \<Rightarrow> nat \<Rightarrow> nat" where
  "days_in_month y m =
     (if m = 2 then (if is_leap y then 29 else 28)
      else if m \<in> set [4, 6, 9, 11] then 30 else 31)"

text \<open>
  \<open>datetime.strptime(s, "%Y%m%d")\<close>. The program applies it to the first field of a
  line that matched the date pattern only, that is to eight decimal digits; there it
  succeeds exactly for a month 01 to 12, a day the month has and a year from 1 on.
  The model answers \<open>ValueError\<close> on every other string.
\<close>

definition strptime_ymd :: "string \<Rightarrow> py_error + date" where
  "strptime_ymd s =
     (if length s = 8 \<and> list_all isdecimal s then
        (let y = digits_val (take 4 s);
             m = digits_val (take 2 (drop 4 s));
             d = digits_val (drop 6 s)
         in if 1 \<le> y \<and> 1 \<le> m \<and> m \<le> 12 \<and> 1 \<le> d \<and> d \<le> days_in_month y m
            then Inr (Date y m d) else Inl ValueError)
      else Inl ValueError)"

text \<open>The day after and the day before, within the years 1 to 9999 of \<open>datetime\<close>.\<close>

definition next_day :: "date \<Rightarrow> date option" where
  "next_day dt =
     (if day dt < days_in_month (year dt) (month dt)
        then Some (Date (year dt) (month dt) (day dt + 1))
      else if month dt < 12 then Some (Date (year dt) (month dt + 1) 1)
      else if year dt < 9999 then Some (Date (year dt + 1) 1 1)
      else None)"

definition prev_day :: "date \<Rightarrow> date option" where
  "prev_day dt =
     (if 1 < day dt then Some (Date (year dt) (month dt) (day dt - 1))
      else if 1 < month dt
        then Some (Date (year dt) (month dt - 1) (days_in_month (year dt) (month dt - 1)))
      else if 1 < year dt then Some (Date (year dt - 1) 12 31)
      else None)"

fun step_days :: "(date \<Rightarrow> date option) \<Rightarrow> nat \<Rightarrow> date \<Rightarrow> date option" where
  "step_days f 0 dt = Some dt"
| "step_days f (Suc n) dt = (case f dt of None \<Rightarrow> None | Some dt' \<Rightarrow> step_days f n dt')"

text \<open>\<open>base + timedelta(days=off)\<close>: \<open>OverflowError\<close> outside the years 1 to 9999.\<close>

definition add_days :: "date \<Rightarrow> int \<Rightarrow> py_error + date" where
  "add_days base off =
     (case (if 0 \<le> off then step_days next_day (nat off) base
            else step_days prev_day (nat (- off)) base) of
        None \<Rightarrow> Inl OverflowError
      | Some dt \<Rightarrow> Inr dt)"

text \<open>
  \<^verbatim>\<open>dt.strftime("%Y%m%d")\<close> as the C library of Linux renders it: month and day
  with two digits, the year without leading zeros, so that the text has eight
  characters from the year 1000 on and fewer before.
\<close>

definition pad2 :: "nat \<Rightarrow> string" where
  "pad2 n = (if n < 10 then CHR ''0'' # show_nat n else show_nat n)"

definition strftime_ymd :: "date \<Rightarrow> string" where
  "strftime_ymd dt = show_nat (year dt) @ pad2 (month dt) @ pad2 (day dt)"

section \<open>The raster source\<close>

text \<open>
  The Earth Engine client is outside the repository. An image collection is a record
  of the three requests the samplers make of it, each of which may raise:
  \<^item> \<open>filter_first\<close>: \<^verbatim>\<open>ee.Date.fromYMD(y, m, d)\<close> and
    \<^verbatim>\<open>imgcol.filterDate(d0, d0.advance(1, "day")).first()\<close>, whose result may be \<open>None\<close>;
  \<^item> \<open>geometry_point\<close>: \<^verbatim>\<open>ee.Geometry.Point(lon, lat)\<close>;
  \<^item> \<open>reduce_region\<close>: what
    \<^verbatim>\<open>img.select(band).reduceRegion(ee.Reducer.first(), pt, scale=20_000).get(band)\<close>
    evaluates to, the raw cell value or nothing where the cell is masked.
\<close>

datatype cell = Masked | Raw rat

record ('img, 'pt) raster =
  filter_first :: "int \<Rightarrow> int \<Rightarrow> int \<Rightarrow> py_error + 'img option"
  geometry_point :: "pyfloat \<Rightarrow> pyfloat \<Rightarrow> py_error + 'pt"
  reduce_region :: "'img \<Rightarrow> string \<Rightarrow> 'pt \<Rightarrow> py_error + cell"

text \<open>
  \<^verbatim>\<open>ee.Number(val).multiply(k)\<close> and \<^verbatim>\<open>.add(c)\<close>, evaluated by \<open>getInfo()\<close>: a missing
  operand is rejected with an exception, a number is scaled exactly.
\<close>

definition number_multiply :: "cell \<Rightarrow> rat \<Rightarrow> py_error + rat" where
  "number_multiply val k = (case val of Masked \<Rightarrow> Inl EEException | Raw r \<Rightarrow> Inr (r * k))"

definition number_add :: "py_error + rat \<Rightarrow> rat \<Rightarrow> py_error + rat" where
  "number_add x c = (case x of Inl e \<Rightarrow> Inl e | Inr r \<Rightarrow> Inr (r + c))"

section \<open>Window sampler, OISST\<close>

text \<open>
  \<open>get_daily_sst\<close> of \<open>extract_sst.py\<close>. The first line slices the text \<open>ymd\<close> and
  converts the three slices with \<open>int\<close>, from left to right. These conversions, the
  date filter and the point stand outside \<open>try\<close>; only the last stage stands inside.
\<close>

definition get_daily_sst ::
  "('img, 'pt) raster \<Rightarrow> string \<Rightarrow> pyfloat \<Rightarrow> pyfloat \<Rightarrow> py_error + pyfloat" where
  "get_daily_sst imgcol ymd lon lat =
     (case py_int (take 4 ymd) of
        Inl e \<Rightarrow> Inl e
      | Inr y \<Rightarrow>
     (case py_int (take 2 (drop 4 ymd)) of
        Inl e \<Rightarrow> Inl e
      | Inr m \<Rightarrow>
     (case py_int (drop 6 ymd) of
        Inl e \<Rightarrow> Inl e
      | Inr d \<Rightarrow>
     (case filter_first imgcol y m d of
        Inl e \<Rightarrow> Inl e
      | Inr None \<Rightarrow> Inr NaN
      | Inr (Some img) \<Rightarrow>
          (case geometry_point imgcol lon lat of
             Inl e \<Rightarrow> Inl e
           | Inr pt \<Rightarrow>
               (case (case reduce_region imgcol img ''sst'' pt of
                        Inl e \<Rightarrow> Inl e
                      | Inr val \<Rightarrow> number_multiply val (1 / 100)) of
                  Inl e \<Rightarrow> Inr NaN
                | Inr v \<Rightarrow> Inr (Fin v)))))))"

text \<open>\<open>get_daily_water_temp\<close> of \<open>extract_HYCOM_sst.py\<close>.\<close>

definition get_daily_water_temp ::
  "('img, 'pt) raster \<Rightarrow> string \<Rightarrow> pyfloat \<Rightarrow> pyfloat \<Rightarrow> py_error + pyfloat" where
  "get_daily_water_temp imgcol ymd lon lat =
     (case py_int (take 4 ymd) of
        Inl e \<Rightarrow> Inl e
      | Inr y \<Rightarrow>
     (case py_int (take 2 (drop 4 ymd)) of
        Inl e \<Rightarrow> Inl e
      | Inr m \<Rightarrow>
     (case py_int (drop 6 ymd) of
        Inl e \<Rightarrow> Inl e
      | Inr d \<Rightarrow>
     (case filter_first imgcol y m d of
        Inl e \<Rightarrow> Inl e
      | Inr None \<Rightarrow> Inr NaN
      | Inr (Some img) \<Rightarrow>
          (case geometry_point imgcol lon lat of
             Inl e \<Rightarrow> Inl e
           | Inr pt \<Rightarrow>
               (case (case reduce_region imgcol img ''water_temp_0'' pt of
                        Inl e \<Rightarrow> Inl e
                      | Inr val \<Rightarrow> number_add (number_multiply val (1 / 1000)) 20) of
                  Inl e \<Rightarrow> Inr NaN
                | Inr v \<Rightarrow> Inr (Fin v)))))))"

section \<open>Track reader\<close>

record row =
  raw :: string
  ymd :: string
  lat :: pyfloat
  lon :: pyfloat

text \<open>
  The body of the reading loop for a line that matched the date pattern. The keyword
  arguments of \<open>dict(...)\<close> are evaluated in order, so \<open>parts[4]\<close> is read and parsed
  before \<open>parts[5]\<close> is read.
\<close>

definition make_row :: "string \<Rightarrow> py_error + row" where
  "make_row line =
     (let parts = map strip (split_comma line)
      in if length parts \<le> 4 then Inl IndexError
         else (case parse_latlon (parts ! 4) of
                 Inl e \<Rightarrow> Inl e
               | Inr la \<Rightarrow>
                   if length parts \<le> 5 then Inl IndexError
                   else (case parse_latlon (parts ! 5) of
                           Inl e \<Rightarrow> Inl e
                         | Inr lo \<Rightarrow>
                             Inr \<lparr>raw = rstrip_nl line, ymd = parts ! 0,
                                  lat = la, lon = lo\<rparr>)))"

text \<open>
  The loop \<open>for line in f\<close> of \<open>main\<close> (the same text in both extractors), with the two
  lists it appends to.
\<close>

fun read_loop ::
  "string list \<Rightarrow> row list \<Rightarrow> string list \<Rightarrow> py_error + (string list \<times> row list)" where
  "read_loop header rows [] = Inr (header, rows)"
| "read_loop header rows (line # rest) =
     (if date_line line then
        (case make_row line of
           Inl e \<Rightarrow> Inl e
         | Inr r \<Rightarrow> read_loop header (rows @ [r]) rest)
      else read_loop (header @ [rstrip_nl line]) rows rest)"

definition read_track :: "string \<Rightarrow> py_error + (string list \<times> row list)" where
  "read_track text = read_loop [] [] (file_lines text)"

section \<open>Sampling the window and writing the records\<close>

text \<open>A list comprehension whose element expression may raise: the first error wins.\<close>

fun map_result :: "('a \<Rightarrow> 'e + 'b) \<Rightarrow> 'a list \<Rightarrow> 'e + 'b list" where
  "map_result f [] = Inr []"
| "map_result f (x # xs) =
     (case f x of
        Inl e \<Rightarrow> Inl e
      | Inr y \<Rightarrow> (case map_result f xs of Inl e \<Rightarrow> Inl e | Inr ys \<Rightarrow> Inr (y # ys)))"

text \<open>\<open>range(-15, 16)\<close>\<close>

definition window :: "int list" where
  "window = [-15..15]"

definition sst_window :: "('img, 'pt) raster \<Rightarrow> row \<Rightarrow> py_error + pyfloat list" where
  "sst_window oisst rw =
     (case strptime_ymd (ymd rw) of
        Inl e \<Rightarrow> Inl e
      | Inr base \<Rightarrow>
          map_result
            (\<lambda>off. case add_days base off of
                     Inl e \<Rightarrow> Inl e
                   | Inr dt \<Rightarrow> get_daily_sst oisst (strftime_ymd dt) (lon rw) (lat rw))
            window)"

definition temp_window :: "('img, 'pt) raster \<Rightarrow> row \<Rightarrow> py_error + pyfloat list" where
  "temp_window hycom rw =
     (case strptime_ymd (ymd rw) of
        Inl e \<Rightarrow> Inl e
      | Inr base \<Rightarrow>
          map_result
            (\<lambda>off. case add_days base off of
                     Inl e \<Rightarrow> Inl e
                   | Inr dt \<Rightarrow> get_daily_water_temp hycom (strftime_ymd dt) (lon rw) (lat rw))
            window)"

text \<open>
  \<^verbatim>\<open>df[cols] = df.apply(f, axis=1, result_type="expand")\<close>: \<open>f\<close> runs on the rows in order.
  On a frame without rows \<open>apply\<close> returns a frame without columns, and assigning that
  to the 31 labels raises \<open>ValueError\<close> (columns must be same length as key).
\<close>

definition apply_rows ::
  "(row \<Rightarrow> py_error + pyfloat list) \<Rightarrow> row list \<Rightarrow> py_error + pyfloat list list" where
  "apply_rows f rows = (if rows = [] then Inl ValueError else map_result f rows)"

text \<open>
  Rounding to two decimals. The value formatted is the exact one, and its ties go to
  the even neighbour. The program formats the binary64 number nearest to that value;
  where the exact value lies on a tie (such as 25.045) the binary64 number lies to one
  side of it, and the program's last digit may differ by one from the model's.
\<close>

definition round_half_even :: "rat \<Rightarrow> int" where
  "round_half_even x =
     (let f = \<lfloor>x\<rfloor>; d = x - of_int f
      in if d < 1 / 2 then f
         else if 1 / 2 < d then f + 1
         else if even f then f else f + 1)"

definition pad_left :: "nat \<Rightarrow> string \<Rightarrow> string" where
  "pad_left w s = replicate (w - length s) (CHR '' '') @ s"

text \<open>The body of a \<open>.2f\<close> rendering of a finite value: sign, integer part, two decimals.\<close>

definition fixed2 :: "rat \<Rightarrow> string" where
  "fixed2 q =
     (let n = nat (round_half_even (\<bar>q\<bar> * 100))
      in (if q < 0 then ''-'' else []) @ show_nat (n div 100) @ ''.''
         @ [digit_char (n div 10), digit_char n])"

text \<open>\<^verbatim>\<open>f"{v:6.2f}"\<close>\<close>

fun format_6_2f :: "pyfloat \<Rightarrow> string" where
  "format_6_2f (Fin q) = pad_left 6 (fixed2 q)"
| "format_6_2f PInf = pad_left 6 ''inf''"
| "format_6_2f NInf = pad_left 6 ''-inf''"
| "format_6_2f NaN = pad_left 6 ''nan''"

text \<open>The two writing loops of \<open>main\<close>; the result is the content of the output file.\<close>

definition write_record :: "row \<times> pyfloat list \<Rightarrow> string" where
  "write_record rv =
     raw (fst rv) @ '', '' @ join '', '' (map format_6_2f (snd rv)) @ [newline]"

definition write_output :: "string list \<Rightarrow> (row \<times> pyfloat list) list \<Rightarrow> string" where
  "write_output header recs =
     concat (map (\<lambda>h. h @ [newline]) header) @ concat (map write_record recs)"

section \<open>The two extractors\<close>

text \<open>
  \<open>main\<close> of \<open>extract_sst.py\<close>, from the opened input file on: \<open>ee\<close> is the catalogue
  (\<^verbatim>\<open>ee.ImageCollection(id)\<close>), \<open>text\<close> the content of the input file. \<open>Inl\<close> is an
  uncaught exception, raised before the output file is opened; \<open>Inr\<close> is the content
  written to the output file.
\<close>

definition main_sst :: "(string \<Rightarrow> ('img, 'pt) raster) \<Rightarrow> string \<Rightarrow> py_error + string" where
  "main_sst ee text =
     (let oisst = ee ''NOAA/CDR/OISST/V2_1''
      in case read_track text of
           Inl e \<Rightarrow> Inl e
         | Inr (header, rows) \<Rightarrow>
             (case apply_rows (sst_window oisst) rows of
                Inl e \<Rightarrow> Inl e
              | Inr wins \<Rightarrow> Inr (write_output header (zip rows wins))))"

text \<open>\<open>main\<close> of \<open>extract_HYCOM_sst.py\<close>.\<close>

definition main_hycom :: "(string \<Rightarrow> ('img, 'pt) raster) \<Rightarrow> string \<Rightarrow> py_error + string" where
  "main_hycom ee text =
     (let hycom = ee ''HYCOM/sea_temp_salinity''
      in case read_track text of
           Inl e \<Rightarrow> Inl e
         | Inr (header, rows) \<Rightarrow>
             (case apply_rows (temp_window hycom) rows of
                Inl e \<Rightarrow> Inl e
              | Inr wins \<Rightarrow> Inr (write_output header (zip rows wins))))"

text \<open>The name of the output file, from the stem of the input file's name.\<close>

definition out_file_sst :: "string \<Rightarrow> string" where
  "out_file_sst stem = stem @ ''_SST.txt''"

definition out_file_hycom :: "string \<Rightarrow> string" where
  "out_file_hycom stem = stem @ ''_HYCOM.txt''"

section \<open>Readers of the augmented files\<close>

text \<open>\<open>find_mixed_missing_sst.py\<close>\<close>

definition MISSING_STRINGS :: "string list" where
  "MISSING_STRINGS = [''nan'', [], ''-999'']"

definition is_missing :: "string \<Rightarrow> bool" where
  "is_missing tok = (lower (strip tok) \<in> set MISSING_STRINGS)"

text \<open>The body of the loop of \<open>mixed_rows\<close>: whether the line is yielded.\<close>

definition mixed_line :: "string \<Rightarrow> bool" where
  "mixed_line line =
     (if \<not> date_line line then False
      else (let parts = map strip (split_comma line)
            in if length parts < 31 then False
               else (let sst_tokens = drop (length parts - 31) parts;
                         miss_mask = map is_missing sst_tokens
                     in list_ex id miss_mask \<and> \<not> list_all id miss_mask)))"

text \<open>\<open>mixed_rows\<close>: the generator's items, line numbers counted from 1.\<close>

definition mixed_rows :: "string \<Rightarrow> (nat \<times> string) list" where
  "mixed_rows text =
     map (\<lambda>(lineno, line). (lineno, rstrip_nl line))
       (filter (\<lambda>(lineno, line). mixed_line line)
          (zip [1 ..< Suc (length (file_lines text))] (file_lines text)))"

text \<open>
  \<open>load_windows\<close> of \<open>plot_single_track_sst.py\<close>. NumPy converts each token of
  \<^verbatim>\<open>np.array(parts[-31:], dtype=float)\<close> as \<open>float\<close> does; a token it rejects makes the
  line be skipped.
\<close>

fun load_loop :: "pyfloat list list \<Rightarrow> string list \<Rightarrow> pyfloat list list" where
  "load_loop windows [] = windows"
| "load_loop windows (line # rest) =
     (if \<not> isdigit (take 8 line) then load_loop windows rest
      else (let parts = map strip (split_comma line)
            in if length parts < 31 then load_loop windows rest
               else (case map_result py_float (drop (length parts - 31) parts) of
                       Inl e \<Rightarrow> load_loop windows rest
                     | Inr sst \<Rightarrow> load_loop (windows @ [sst]) rest)))"

definition load_windows :: "string \<Rightarrow> py_error + pyfloat list list" where
  "load_windows text =
     (let windows = load_loop [] (file_lines text)
      in if windows = [] then Inl RuntimeError else Inr windows)"

section \<open>Notions of the specification\<close>

text \<open>
  The header lines and the fix lines of a file, each without its line terminator:
  a line is a fix line when it starts with eight decimal digits and a comma.
\<close>

definition header_lines :: "string \<Rightarrow> string list" where
  "header_lines text = map rstrip_nl (filter (\<lambda>l. \<not> date_line l) (file_lines text))"

definition fix_lines :: "string \<Rightarrow> string list" where
  "fix_lines text = map rstrip_nl (filter date_line (file_lines text))"

text \<open>
  A decimal numeral: decimal digits with at most one point among them and at least
  one digit. A valid compass token is a decimal numeral followed by one of the
  letters N, S, E, W in either case.
\<close>

definition decimal_numeral :: "string \<Rightarrow> bool" where
  "decimal_numeral s =
     (list_ex isdecimal s \<and> list_all (\<lambda>c. isdecimal c \<or> c = CHR ''.'') s
      \<and> length (filter (\<lambda>c. c = CHR ''.'') s) \<le> 1)"

definition valid_compass_token :: "string \<Rightarrow> bool" where
  "valid_compass_token t =
     (t \<noteq> [] \<and> last t \<in> set ''NSEWnsew'' \<and> decimal_numeral (butlast t))"

text \<open>
  The year, month and day a sampler reads from its argument, by the three
  conversions of its first line in their order.
\<close>

definition ymd_ints :: "string \<Rightarrow> py_error + (int \<times> int \<times> int)" where
  "ymd_ints s =
     (case py_int (take 4 s) of
        Inl e \<Rightarrow> Inl e
      | Inr y \<Rightarrow>
          (case py_int (take 2 (drop 4 s)) of
             Inl e \<Rightarrow> Inl e
           | Inr m \<Rightarrow>
               (case py_int (drop 6 s) of
                  Inl e \<Rightarrow> Inl e
                | Inr d \<Rightarrow> Inr (y, m, d))))"



text \<open>
  The values a sampler yields for the window of a fix: 31 of them, the \<open>k\<close>-th (from 0)
  being the sampler's answer to the rendering of the date of the fix plus \<open>k - 15\<close>
  days, at its position.
\<close>

definition window_values ::
  "(string \<Rightarrow> pyfloat \<Rightarrow> pyfloat \<Rightarrow> py_error + pyfloat) \<Rightarrow> row \<Rightarrow> pyfloat list \<Rightarrow> bool" where
  "window_values sampler rw vs =
     (case strptime_ymd (ymd rw) of
        Inl e \<Rightarrow> False
      | Inr base \<Rightarrow>
          length vs = 31
          \<and> list_all
              (\<lambda>k. case add_days base (int k - 15) of
                      Inl e \<Rightarrow> False
                    | Inr dt \<Rightarrow> sampler (strftime_ymd dt) (lon rw) (lat rw) = Inr (vs ! k))
              [0 ..< 31])"

text \<open>
  One extraction pipeline with the source as configuration: the identifier of the
  collection and of its band, the rescaling constants and the suffix of the output
  file.
\<close>

record config =
  collection :: string
  band :: string
  multiplier :: rat
  offset :: rat
  suffix :: string

definition sample_with ::
  "config \<Rightarrow> ('img, 'pt) raster \<Rightarrow> string \<Rightarrow> pyfloat \<Rightarrow> pyfloat \<Rightarrow> py_error + pyfloat" where
  "sample_with cfg imgcol s lo la =
     (case ymd_ints s of
        Inl e \<Rightarrow> Inl e
      | Inr (y, m, d) \<Rightarrow>
          (case filter_first imgcol y m d of
             Inl e \<Rightarrow> Inl e
           | Inr None \<Rightarrow> Inr NaN
           | Inr (Some img) \<Rightarrow>
               (case geometry_point imgcol lo la of
                  Inl e \<Rightarrow> Inl e
                | Inr pt \<Rightarrow>
                    (case reduce_region imgcol img (band cfg) pt of
                       Inr (Raw r) \<Rightarrow> Inr (Fin (r * multiplier cfg + offset cfg))
                     | _ \<Rightarrow> Inr NaN))))"

definition window_with ::
  "config \<Rightarrow> ('img, 'pt) raster \<Rightarrow> row \<Rightarrow> py_error + pyfloat list" where
  "window_with cfg imgcol rw =
     (case strptime_ymd (ymd rw) of
        Inl e \<Rightarrow> Inl e
      | Inr base \<Rightarrow>
          map_result
            (\<lambda>off. case add_days base off of
                     Inl e \<Rightarrow> Inl e
                   | Inr dt \<Rightarrow> sample_with cfg imgcol (strftime_ymd dt) (lon rw) (lat rw))
            window)"

definition extract_with ::
  "config \<Rightarrow> (string \<Rightarrow> ('img, 'pt) raster) \<Rightarrow> string \<Rightarrow> py_error + string" where
  "extract_with cfg ee text =
     (case read_track text of
        Inl e \<Rightarrow> Inl e
      | Inr (header, rows) \<Rightarrow>
          (case apply_rows (window_with cfg (ee (collection cfg))) rows of
             Inl e \<Rightarrow> Inl e
           | Inr wins \<Rightarrow> Inr (write_output header (zip rows wins))))"

definition out_file_with :: "config \<Rightarrow> string \<Rightarrow> string" where
  "out_file_with cfg stem = stem @ ''_'' @ suffix cfg @ ''.txt''"

definition oisst_config :: config where
  "oisst_config =
     \<lparr>collection = ''NOAA/CDR/OISST/V2_1'', band = ''sst'',
      multiplier = 1 / 100, offset = 0, suffix = ''SST''\<rparr>"

definition hycom_config :: config where
  "hycom_config =
     \<lparr>collection = ''HYCOM/sea_temp_salinity'', band = ''water_temp_0'',
      multiplier = 1 / 1000, offset = 20, suffix = ''HYCOM''\<rparr>"

section \<open>Sources and files used as examples\<close>

text \<open>A source that has an image for every date and the raw value \<open>r\<close> in every cell.\<close>

definition constant_source :: "rat \<Rightarrow> (unit, unit) raster" where
  "constant_source r =
     \<lparr>filter_first = (\<lambda>y m d. Inr (Some ())),
      geometry_point = (\<lambda>lo la. Inr ()),
      reduce_region = (\<lambda>img b pt. Inr (Raw r))\<rparr>"

text \<open>
  A line of an augmented file: the given start, then each value after a comma and a
  blank, then the line terminator.
\<close>

definition augmented :: "string \<Rightarrow> string list \<Rightarrow> string" where
  "augmented start vals = start @ concat (map (\<lambda>v. '', '' @ v) vals) @ [newline]"

definition fix_start :: string where
  "fix_start = ''19840901,AL,13,HU,13.4N,82.7W''"

text \<open>A line stamped with date and hour, ten digits, where a fix line has eight.\<close>

definition hour_stamped_line :: string where
  "hour_stamped_line = augmented ''1984090106,AL,13,HU,13.4N,82.7W'' (replicate 31 ''  5.00'')"

text \<open>Records whose 31 values are partly missing, all missing, and all present.\<close>

definition mixed_record :: string where
  "mixed_record = augmented fix_start (''   nan'' # replicate 30 ''  5.00'')"

definition missing_record :: string where
  "missing_record = augmented fix_start (replicate 31 ''   nan'')"

definition numeric_record :: string where
  "numeric_record = augmented fix_start (replicate 31 ''  5.00'')"

definition scanned_file :: string where
  "scanned_file = ''header'' @ [newline] @ mixed_record @ missing_record"

text \<open>A track file with one header line and one fix.\<close>

definition sample_track :: string where
  "sample_track = ''Track AL13'' @ [newline] @ fix_start @ '', 65, 987'' @ [newline]"



text \<open>What the OISST extractor writes for \<open>sample_track\<close> when every raw value is 500.\<close>

definition sample_output :: string where
  "sample_output =
     ''Track AL13'' @ [newline] @ fix_start @ '', 65, 987''
       @ concat (replicate 31 '',   5.00'') @ [newline]"




section \<open>Properties\<close>


subsection \<open>The two extractors as one configured pipeline\<close>

lemma get_daily_sst_config: "get_daily_sst imgcol = sample_with oisst_config imgcol"
  by (intro ext)
     (simp add: get_daily_sst_def sample_with_def ymd_ints_def oisst_config_def
                number_multiply_def
           split: sum.splits option.splits cell.splits)

lemma get_daily_water_temp_config:
  "get_daily_water_temp imgcol = sample_with hycom_config imgcol"
  by (intro ext)
     (simp add: get_daily_water_temp_def sample_with_def ymd_ints_def hycom_config_def
                number_multiply_def number_add_def
           split: sum.splits option.splits cell.splits)

lemma sst_window_config: "sst_window imgcol = window_with oisst_config imgcol"
  unfolding sst_window_def window_with_def get_daily_sst_config by (rule refl)

lemma temp_window_config: "temp_window imgcol = window_with hycom_config imgcol"
  unfolding temp_window_def window_with_def get_daily_water_temp_config by (rule refl)

lemma main_sst_config: "main_sst ee text = extract_with oisst_config ee text"
proof -
  have c: "collection oisst_config = ''NOAA/CDR/OISST/V2_1''"
    by (simp add: oisst_config_def)
  show ?thesis
    unfolding main_sst_def extract_with_def sst_window_config Let_def c by (rule refl)
qed

lemma main_hycom_config: "main_hycom ee text = extract_with hycom_config ee text"
proof -
  have c: "collection hycom_config = ''HYCOM/sea_temp_salinity''"
    by (simp add: hycom_config_def)
  show ?thesis
    unfolding main_hycom_def extract_with_def temp_window_config Let_def c by (rule refl)
qed

subsection \<open>Coordinate parser\<close>

lemma of_char_lt: "(of_char c :: nat) < 256"
  by (metis of_char_mod_256 mod_less_divisor zero_less_numeral)

lemma upper_char_eq_upper:
  assumes "65 \<le> (k::nat)" "k \<le> 90"
  shows "upper_char c = char_of k \<longleftrightarrow> c = char_of k \<or> c = char_of (k + 32)"
proof -
  define n where "n = (of_char c :: nat)"
  have c: "c = char_of n" by (simp add: n_def)
  have lt: "n < 256" unfolding n_def by (rule of_char_lt)
  have eq: "char_of a = (char_of b :: char) \<longleftrightarrow> a = b" if "a < 256" "b < 256" for a b :: nat
    using that by (simp add: char_of_eq_iff take_bit_eq_mod)
  show ?thesis
    using assms lt unfolding upper_char_def Let_def n_def[symmetric] c
    by (auto simp: eq)
qed

lemma upper_char_N: "upper_char c = CHR ''N'' \<longleftrightarrow> c = CHR ''N'' \<or> c = CHR ''n''"
proof -
  have "char_of (78::nat) = CHR ''N''" "char_of (78 + 32 :: nat) = CHR ''n''"
    by (simp_all add: char_of_eq_iff)
  with upper_char_eq_upper[of 78 c] show ?thesis by simp
qed

lemma upper_char_E: "upper_char c = CHR ''E'' \<longleftrightarrow> c = CHR ''E'' \<or> c = CHR ''e''"
proof -
  have "char_of (69::nat) = CHR ''E''" "char_of (69 + 32 :: nat) = CHR ''e''"
    by (simp_all add: char_of_eq_iff)
  with upper_char_eq_upper[of 69 c] show ?thesis by simp
qed

lemma hemi_north_east:
  "upper [c] \<in> set [''N'', ''E''] \<longleftrightarrow> c \<in> set ''NEne''"
  by (auto simp: upper_def upper_char_N upper_char_E)

lemma numeric_strip_Nil: "numeric_strip [] = []"
  by (simp add: numeric_strip_def rstrip_with_def)

lemma py_float_Nil: "py_float [] = Inl ValueError"
  by (simp add: py_float_def numeric_strip_Nil float_number_def lower_def)

lemma py_float_error: "py_float s = Inl e \<Longrightarrow> e = ValueError"
  by (auto simp: py_float_def Let_def split: if_splits prod.splits option.splits)

text \<open>
  The parser in closed form: it fails exactly when \<open>float\<close> rejects the token without
  its last character, and the last character only chooses the sign.
\<close>

lemma parse_latlon_eq:
  "parse_latlon t =
     (case py_float (butlast t) of
        Inl e \<Rightarrow> Inl ValueError
      | Inr v \<Rightarrow> Inr (if last t \<in> set ''NEne'' then v else fneg v))"
proof (cases "py_float (butlast t)")
  case (Inl e)
  then show ?thesis using py_float_error[OF Inl] by (simp add: parse_latlon_def)
next
  case (Inr v)
  then have "t \<noteq> []" using py_float_Nil by auto
  then obtain c cs where "t = c # cs" by (cases t) auto
  then show ?thesis using Inr hemi_north_east[of "last t"]
    by (simp add: parse_latlon_def Let_def del: set_simps)
qed

text \<open>
  C2, as the code has it. The parser raises (a \<open>ValueError\<close>) exactly when \<open>float\<close>
  rejects the part of the token before its last character, as it does for the empty
  token. The last character is not validated: whenever the numeral is accepted the
  parser returns a number, the value itself after N or E in either case and the
  negated value after any other character.
\<close>

theorem parse_latlon_rejects_bad_numeral_only:
  "(parse_latlon (num @ [c]) = Inl e \<longleftrightarrow> py_float num = Inl e)
   \<and> (parse_latlon (num @ [c]) = Inl e \<longrightarrow> e = ValueError)
   \<and> (py_float num = Inr v \<longrightarrow>
        parse_latlon (num @ [c]) = Inr (if c \<in> set ''NEne'' then v else fneg v))
   \<and> parse_latlon [] = Inl ValueError"
  by (cases "py_float num") (auto simp: parse_latlon_eq py_float_Nil dest: py_float_error)

theorem parse_latlon_rejects_bad_numeral_only_witness:
  "py_float ''82.7'' = Inr (Fin (827 / 10))
   \<and> parse_latlon (''82.7'' @ ''Q'') = Inr (Fin (- (827 / 10)))
   \<and> py_float ''82,7'' = Inl ValueError
   \<and> parse_latlon (''82,7'' @ ''W'') = Inl ValueError"
proof -
  have a: "py_float ''82.7'' = Inr (Fin (827 / 10))" by code_simp
  have b: "py_float ''82,7'' = Inl ValueError" by code_simp
  show ?thesis
    using parse_latlon_rejects_bad_numeral_only[of "''82.7''" "CHR ''Q''" ValueError "Fin (827 / 10)"]
      parse_latlon_rejects_bad_numeral_only[of "''82,7''" "CHR ''W''" ValueError "Fin 0"] a b
    by simp
qed

text \<open>
  C2 as stated fails: the token \<open>13.4X\<close> ends in no compass letter, and the parser
  returns the number -13.4 for it.
\<close>

theorem parse_latlon_unknown_letter_counterexample:
  "parse_latlon ''13.4X'' = Inr (Fin (- (67 / 5)))"
  by code_simp

subsection \<open>The missing marker\<close>

text \<open>
  C10. The writer renders a missing sample as the six characters \<open>"   nan"\<close>; trimmed
  and lowered this is \<open>"nan"\<close>, and the scanner's \<open>is_missing\<close> accepts it, also with the
  blank that follows the separating comma and with the newline that ends the record.
\<close>

theorem missing_marker_roundtrip:
  "format_6_2f NaN = ''   nan'' \<and> lower (strip (format_6_2f NaN)) = ''nan''
   \<and> is_missing (format_6_2f NaN)
   \<and> is_missing ('' '' @ format_6_2f NaN)
   \<and> is_missing ('' '' @ format_6_2f NaN @ [newline])"
  by code_simp

subsection \<open>Valid compass tokens\<close>

lemma rstrip_with_snoc: "\<not> p c \<Longrightarrow> rstrip_with p (s @ [c]) = s @ [c]"
  by (simp add: rstrip_with_def)

lemma numeric_strip_id:
  "s \<noteq> [] \<Longrightarrow> \<not> numeric_space (hd s) \<Longrightarrow> \<not> numeric_space (last s) \<Longrightarrow> numeric_strip s = s"
proof -
  assume a: "s \<noteq> []" "\<not> numeric_space (hd s)" "\<not> numeric_space (last s)"
  then have "dropWhile numeric_space s = s" by (cases s) auto
  moreover have "rstrip_with numeric_space s = s"
    using a rstrip_with_snoc[of numeric_space "last s" "butlast s"] by simp
  ultimately show ?thesis by (simp add: numeric_strip_def)
qed

lemma underscores_ok_none:
  "CHR ''_'' \<notin> set s \<Longrightarrow> prev \<noteq> Some (CHR ''_'') \<Longrightarrow> underscores_ok prev s"
  by (induction s arbitrary: prev) auto

lemma numeral_char_facts:
  assumes "isdecimal c \<or> c = CHR ''.''"
  shows "\<not> numeric_space c" "c \<noteq> CHR ''_''" "c \<noteq> CHR ''-''" "c \<noteq> CHR ''+''" "lower_char c = c"
        "c \<noteq> CHR ''i''" "c \<noteq> CHR ''n''"
  using assms by (auto simp: isdecimal_def numeric_space_def lower_char_def)

lemma float_number_decimal:
  assumes "decimal_numeral s"
  shows "\<exists>x. 0 \<le> x \<and> float_number s = Some x"
proof -
  from assms have ex: "list_ex isdecimal s"
    and all: "\<forall>c\<in>set s. isdecimal c \<or> c = CHR ''.''"
    and dots: "length (filter (\<lambda>c. c = CHR ''.'') s) \<le> 1"
    by (auto simp: decimal_numeral_def list_all_iff)
  define ip where "ip = takeWhile isdecimal s"
  define r1 where "r1 = dropWhile isdecimal s"
  have s: "s = ip @ r1" by (simp add: ip_def r1_def)
  have nonneg: "0 \<le> (of_nat n :: rat) * 10 powi k" for n k
    by (simp add: zero_le_power_int)
  show ?thesis
  proof (cases r1)
    case Nil
    then have "ip = s" using s by simp
    moreover have "s \<noteq> []" using ex by (auto simp: list_ex_iff)
    ultimately show ?thesis
      using Nil nonneg
      by (simp add: float_number_def Let_def ip_def[symmetric] r1_def[symmetric] exponent_def)
  next
    case (Cons c r)
    have "\<not> isdecimal c"
      using Cons hd_dropWhile[of isdecimal s] unfolding r1_def by (metis list.sel(1) list.distinct(1))
    moreover have "c \<in> set s" using s Cons by (metis in_set_conv_decomp)
    ultimately have c: "c = CHR ''.''" using all by blast
    have "length (filter (\<lambda>c. c = CHR ''.'') r) = 0"
      using dots s Cons c by (subst (asm) s) simp
    then have nodot: "\<forall>d\<in>set r. d \<noteq> CHR ''.''"
      by (simp add: filter_empty_conv)
    have "set r \<subseteq> set s" using s Cons by (subst s) auto
    then have rdec: "\<forall>d\<in>set r. isdecimal d" using all nodot by blast
    then have tw: "takeWhile isdecimal r = r" and dw: "dropWhile isdecimal r = []"
      by (simp_all add: takeWhile_eq_all_conv)
    have "ip \<noteq> [] \<or> r \<noteq> []"
    proof (rule ccontr)
      assume "\<not> (ip \<noteq> [] \<or> r \<noteq> [])"
      then have "s = [CHR ''.'']" using s Cons c by simp
      then show False using ex by (simp add: isdecimal_def)
    qed
    then show ?thesis
      using Cons c nonneg
      by (auto simp: float_number_def Let_def ip_def[symmetric] r1_def[symmetric] exponent_def
            tw dw)
  qed
qed

lemma py_float_decimal:
  assumes "decimal_numeral s"
  shows "\<exists>x. 0 \<le> x \<and> py_float s = Inr (Fin x)"
proof -
  from assms have ex: "list_ex isdecimal s"
    and all: "\<forall>c\<in>set s. isdecimal c \<or> c = CHR ''.''"
    by (auto simp: decimal_numeral_def list_all_iff)
  have ne: "s \<noteq> []" using ex by (auto simp: list_ex_iff)
  then have hl: "hd s \<in> set s" "last s \<in> set s" by simp_all
  have strip: "numeric_strip s = s"
    using ne hl all numeral_char_facts(1) by (intro numeric_strip_id) blast+
  have us: "underscores_ok None s"
    using all numeral_char_facts(2) by (intro underscores_ok_none) auto
  have flt: "filter (\<lambda>c. c \<noteq> CHR ''_'') s = s"
    using all numeral_char_facts(2) by (auto simp: filter_id_conv)
  have sign: "split_sign s = (False, s)"
    using ne hl(1) all numeral_char_facts(3,4) by (cases s) auto
  have low: "lower s = s"
    unfolding lower_def using all numeral_char_facts(5) by (intro map_idI) blast
  have "CHR ''i'' \<notin> set s" "CHR ''n'' \<notin> set s"
    using all numeral_char_facts(6,7) by blast+
  then have words: "s \<noteq> ''inf''" "s \<noteq> ''infinity''" "s \<noteq> ''nan''"
    by auto
  from float_number_decimal[OF assms] obtain x where x: "0 \<le> x" "float_number s = Some x"
    by blast
  show ?thesis
    using x strip us flt sign low words by (auto simp: py_float_def)
qed

text \<open>
  C7. For a valid compass token the numeral before the letter is accepted with a
  value \<open>x\<close>, not negative; the parser returns \<open>x\<close> when the letter is N or E and \<open>-x\<close>
  when it is S or W, in either case; and the absolute value of its result equals \<open>x\<close>.
\<close>

theorem parse_latlon_sign:
  assumes "valid_compass_token t"
  shows "\<exists>x. 0 \<le> x \<and> py_float (butlast t) = Inr (Fin x)
           \<and> parse_latlon t = Inr (if last t \<in> set ''NEne'' then Fin x else Fin (- x))
           \<and> (\<exists>v. parse_latlon t = Inr v \<and> feq (fabs v) (Fin x))"
proof -
  from assms have "decimal_numeral (butlast t)"
    by (simp add: valid_compass_token_def)
  from py_float_decimal[OF this] obtain x where x: "0 \<le> x" "py_float (butlast t) = Inr (Fin x)"
    by blast
  then show ?thesis
    by (intro exI[of _ x]) (auto simp: parse_latlon_eq feq_def)
qed

theorem parse_latlon_sign_witness:
  "valid_compass_token ''82.7W'' \<and> py_float ''82.7'' = Inr (Fin (827 / 10))
   \<and> parse_latlon ''82.7W'' = Inr (Fin (- (827 / 10)))
   \<and> valid_compass_token ''13.4n'' \<and> parse_latlon ''13.4n'' = Inr (Fin (67 / 5))"
proof -
  have a: "valid_compass_token ''82.7W''" and b: "valid_compass_token ''13.4n''"
    by code_simp+
  have c: "py_float ''82.7'' = Inr (Fin (827 / 10))" "py_float ''13.4'' = Inr (Fin (67 / 5))"
    by code_simp+
  show ?thesis
    using parse_latlon_sign[OF a] parse_latlon_sign[OF b] a b c by (auto simp: field_simps)
qed

subsection \<open>Rescaling\<close>

text \<open>
  C8. For a raw value \<open>r\<close> that the source returns for the day the sampler reads from
  its argument, the OISST sampler records \<open>r * 0.01 + 0\<close> and the HYCOM sampler
  \<open>r * 0.001 + 20\<close>. Each extractor is the one configured pipeline \<open>extract_with\<close> at
  its configuration, and each output name is \<open>out_file_with\<close> at it: the two differ in
  the identifiers of the source (collection and band), the two constants and the
  suffix only.
\<close>

theorem rescale_per_source:
  "(ymd_ints s = Inr (y, m, d) \<longrightarrow> filter_first imgcol y m d = Inr (Some img) \<longrightarrow>
      geometry_point imgcol lo la = Inr pt \<longrightarrow>
      reduce_region imgcol img ''sst'' pt = Inr (Raw r) \<longrightarrow>
      get_daily_sst imgcol s lo la = Inr (Fin (r * (1 / 100) + 0)))
   \<and> (ymd_ints s = Inr (y, m, d) \<longrightarrow> filter_first imgcol y m d = Inr (Some img) \<longrightarrow>
      geometry_point imgcol lo la = Inr pt \<longrightarrow>
      reduce_region imgcol img ''water_temp_0'' pt = Inr (Raw r') \<longrightarrow>
      get_daily_water_temp imgcol s lo la = Inr (Fin (r' * (1 / 1000) + 20)))
   \<and> main_sst ee text = extract_with oisst_config ee text
   \<and> main_hycom ee text = extract_with hycom_config ee text
   \<and> out_file_sst stem = out_file_with oisst_config stem
   \<and> out_file_hycom stem = out_file_with hycom_config stem"
  by (simp add: main_sst_config main_hycom_config out_file_sst_def out_file_hycom_def
        out_file_with_def oisst_config_def hycom_config_def get_daily_sst_def
        get_daily_water_temp_def number_multiply_def number_add_def ymd_ints_def
      split: sum.splits)

theorem rescale_per_source_witness:
  "ymd_ints ''19840901'' = Inr (1984, 9, 1)
   \<and> get_daily_sst (constant_source 500) ''19840901'' (Fin (- (827 / 10))) (Fin (67 / 5))
     = Inr (Fin 5)
   \<and> get_daily_water_temp (constant_source 500) ''19840901'' (Fin (- (827 / 10))) (Fin (67 / 5))
     = Inr (Fin (41 / 2))"
proof -
  have a: "ymd_ints ''19840901'' = Inr (1984, 9, 1)" by code_simp
  show ?thesis
    using rescale_per_source[of "''19840901''" 1984 9 1 "constant_source 500" "()"
        "Fin (- (827 / 10))" "Fin (67 / 5)" "()" 500 500 "\<lambda>name. constant_source 500" "[]" "[]"] a
    by (simp add: constant_source_def)
qed

subsection \<open>Readers of the augmented files\<close>

lemma map_result_replicate:
  "f x = Inr y \<Longrightarrow> map_result f (replicate n x) = Inr (replicate n y)"
  by (induction n) simp_all

lemma mixed_line_iff:
  "mixed_line line \<longleftrightarrow>
     date_line line \<and> 31 \<le> length (split_comma line)
     \<and> (\<exists>t\<in>set (drop (length (split_comma line) - 31) (map strip (split_comma line))). is_missing t)
     \<and> (\<exists>t\<in>set (drop (length (split_comma line) - 31) (map strip (split_comma line))). \<not> is_missing t)"
  by (auto simp: mixed_line_def Let_def list_ex_iff list_all_iff)

lemma in_enumerate:
  "(n, l) \<in> set (zip [Suc 0 ..< Suc (length ls)] ls) \<longleftrightarrow> 0 < n \<and> n \<le> length ls \<and> l = ls ! (n - 1)"
proof
  assume "(n, l) \<in> set (zip [Suc 0 ..< Suc (length ls)] ls)"
  then obtain i where "i < length ls" "[Suc 0 ..< Suc (length ls)] ! i = n" "ls ! i = l"
    by (auto simp: in_set_zip simp del: upt_Suc)
  then show "0 < n \<and> n \<le> length ls \<and> l = ls ! (n - 1)"
    by (auto simp: nth_upt simp del: upt_Suc)
next
  assume a: "0 < n \<and> n \<le> length ls \<and> l = ls ! (n - 1)"
  then have "n - 1 < length ls" "[Suc 0 ..< Suc (length ls)] ! (n - 1) = n"
    by (auto simp: nth_upt simp del: upt_Suc)
  with a show "(n, l) \<in> set (zip [Suc 0 ..< Suc (length ls)] ls)"
    unfolding in_set_zip by (intro exI[of _ "n - 1"]) (simp del: upt_Suc)
qed

lemma mixed_rows_iff:
  "(n, c) \<in> set (mixed_rows text) \<longleftrightarrow>
      0 < n \<and> n \<le> length (file_lines text)
      \<and> c = rstrip_nl (file_lines text ! (n - 1))
      \<and> mixed_line (file_lines text ! (n - 1))"
  unfolding mixed_rows_def by (auto simp: in_enumerate image_iff simp del: upt_Suc)

text \<open>
  C9. The scanner yields line number \<open>n\<close> with content \<open>c\<close> exactly when the
  \<open>n\<close>-th line of the file is a mixed line and \<open>c\<close> is that line without its
  terminator. A line is mixed exactly when it is a fix line with at least 31 fields
  among whose last 31, trimmed, at least one is a missing token and at least one is
  not. A record with one NaN and thirty numbers is flagged; a record whose 31 values
  are all NaN is not, and neither is one whose 31 values are all numbers.
\<close>

theorem mixed_rows_flags_mixed_lines:
  "((n, c) \<in> set (mixed_rows text) \<longleftrightarrow>
      0 < n \<and> n \<le> length (file_lines text)
      \<and> c = rstrip_nl (file_lines text ! (n - 1))
      \<and> mixed_line (file_lines text ! (n - 1)))
   \<and> (mixed_line line \<longleftrightarrow>
        date_line line \<and> 31 \<le> length (split_comma line)
        \<and> (\<exists>t\<in>set (drop (length (split_comma line) - 31) (map strip (split_comma line))).
              is_missing t)
        \<and> (\<exists>t\<in>set (drop (length (split_comma line) - 31) (map strip (split_comma line))).
              \<not> is_missing t))
   \<and> mixed_line mixed_record
   \<and> \<not> mixed_line missing_record
   \<and> \<not> mixed_line numeric_record"
proof -
  have m1: "mixed_line mixed_record"
    by code_simp
  have m2: "\<not> mixed_line missing_record"
    by code_simp
  have m3: "\<not> mixed_line numeric_record"
    by code_simp
  show ?thesis
    using mixed_rows_iff[of n c "text"] m1 m2 m3 mixed_line_iff[of line] by blast
qed

theorem mixed_rows_flags_mixed_lines_witness:
  "(2, rstrip_nl mixed_record) \<in> set (mixed_rows scanned_file)
   \<and> (3, rstrip_nl missing_record) \<notin> set (mixed_rows scanned_file)"
proof -
  have fl: "file_lines scanned_file = [''header'' @ [newline], mixed_record, missing_record]"
    by code_simp
  show ?thesis
    using mixed_rows_flags_mixed_lines[of 2 "rstrip_nl mixed_record" scanned_file "[]"]
      mixed_rows_flags_mixed_lines[of 3 "rstrip_nl missing_record" scanned_file "[]"]
    by (simp add: fl)
qed

text \<open>
  C6 at a line that starts with ten digits: no comma follows the first eight, so the
  extractor passes it through as a header line and the scanner skips it, but
  \<open>load_windows\<close> of \<open>plot_single_track_sst.py\<close>, which only asks for eight leading
  digits, reads a window of 31 values from it.
\<close>

theorem plot_reader_takes_undated_line:
  "\<not> date_line hour_stamped_line
   \<and> header_lines hour_stamped_line = [rstrip_nl hour_stamped_line]
   \<and> mixed_rows hour_stamped_line = []
   \<and> isdigit (take 8 hour_stamped_line)
   \<and> load_windows hour_stamped_line = Inr [replicate 31 (Fin 5)]"
proof -
  have fl: "file_lines hour_stamped_line = [hour_stamped_line]" by code_simp
  have nd: "\<not> date_line hour_stamped_line" by code_simp
  have g: "isdigit (take 8 hour_stamped_line)" by code_simp
  have p: "map strip (split_comma hour_stamped_line)
           = [''1984090106'', ''AL'', ''13'', ''HU'', ''13.4N'', ''82.7W''] @ replicate 31 ''5.00''"
    by code_simp
  have f: "py_float ''5.00'' = Inr (Fin 5)" by code_simp
  have h: "header_lines hour_stamped_line = [rstrip_nl hour_stamped_line]"
    by (simp add: header_lines_def fl nd)
  have m: "mixed_rows hour_stamped_line = []"
    by (simp add: mixed_rows_def fl mixed_line_def nd)
  have l: "load_windows hour_stamped_line = Inr [replicate 31 (Fin 5)]"
    by (simp add: load_windows_def fl g p Let_def map_result_replicate[where f = py_float, OF f])
  show ?thesis using nd h m g l by simp
qed

subsection \<open>Malformed records\<close>

lemma make_row_error: "make_row l = Inl e \<Longrightarrow> e = IndexError \<or> e = ValueError"
  by (auto simp: make_row_def Let_def parse_latlon_eq split: if_splits sum.splits)

lemma make_row_short:
  "length (split_comma l) < 6 \<Longrightarrow> \<exists>e. make_row l = Inl e"
  by (auto simp: make_row_def Let_def split: sum.splits)

lemma read_loop_error:
  "read_loop header rows ls = Inl e \<Longrightarrow> e = IndexError \<or> e = ValueError"
  by (induction ls arbitrary: header rows)
     (auto split: if_splits sum.splits dest: make_row_error)

lemma read_loop_fails:
  "l \<in> set ls \<Longrightarrow> date_line l \<Longrightarrow> make_row l = Inl e' \<Longrightarrow>
   \<exists>e. read_loop header rows ls = Inl e"
  by (induction ls arbitrary: header rows) (auto split: sum.splits)

text \<open>
  C3. When some line of the file matches the date pattern and has fewer than six
  comma-separated fields, reading the track raises (\<open>IndexError\<close>, or \<open>ValueError\<close>
  when a coordinate fails to parse first), and so does each extractor: no output is
  written, since the output file is opened only after reading and sampling.
\<close>

theorem short_fix_line_aborts:
  assumes "l \<in> set (file_lines text)" and "date_line l" and "length (split_comma l) < 6"
  shows "\<exists>e. (e = IndexError \<or> e = ValueError)
           \<and> read_track text = Inl e
           \<and> main_sst ee text = Inl e \<and> main_hycom ee text = Inl e"
proof -
  from make_row_short[OF assms(3)] obtain e' where "make_row l = Inl e'" by blast
  from read_loop_fails[OF assms(1,2) this] obtain e where e: "read_track text = Inl e"
    unfolding read_track_def by blast
  then have "e = IndexError \<or> e = ValueError"
    unfolding read_track_def by (rule read_loop_error)
  with e show ?thesis
    by (auto simp: main_sst_def main_hycom_def)
qed

theorem short_fix_line_aborts_witness:
  "main_sst (\<lambda>name. constant_source 500) (''header'' @ [newline] @ ''19840901,AL,13,HU'' @ [newline])
     = Inl IndexError"
proof -
  have a: "''19840901,AL,13,HU'' @ [newline]
           \<in> set (file_lines (''header'' @ [newline] @ ''19840901,AL,13,HU'' @ [newline]))"
    by code_simp
  have b: "date_line (''19840901,AL,13,HU'' @ [newline])" by code_simp
  have c: "length (split_comma (''19840901,AL,13,HU'' @ [newline])) < 6" by code_simp
  have d: "read_track (''header'' @ [newline] @ ''19840901,AL,13,HU'' @ [newline]) = Inl IndexError"
    by code_simp
  show ?thesis
    using short_fix_line_aborts[OF a b c, of "\<lambda>name. constant_source 500"] d by auto
qed

subsection \<open>Lines of the input and of the output\<close>

lemma file_lines_line:
  "newline \<notin> set l \<Longrightarrow> file_lines (l @ newline # rest) = (l @ [newline]) # file_lines rest"
  by (induction l) auto

lemma file_lines_terminated:
  "\<forall>l\<in>set ls. newline \<notin> set l \<Longrightarrow>
   file_lines (concat (map (\<lambda>l. l @ [newline]) ls)) = map (\<lambda>l. l @ [newline]) ls"
  by (induction ls) (simp_all add: file_lines_line)

lemma file_lines_shape:
  "l \<in> set (file_lines t) \<Longrightarrow>
   \<exists>b. newline \<notin> set b \<and> (l = b @ [newline] \<or> (l = b \<and> b \<noteq> []))"
proof (induction t arbitrary: l)
  case Nil
  then show ?case by simp
next
  case (Cons c cs)
  show ?case
  proof (cases "c = newline")
    case True
    with Cons show ?thesis by (auto intro: exI[of _ "[]"])
  next
    case False
    show ?thesis
    proof (cases "file_lines cs")
      case Nil
      with False Cons.prems show ?thesis by (auto intro: exI[of _ "[c]"])
    next
      case (Cons l' ls')
      with False Cons.prems have "l = c # l' \<or> l \<in> set ls'" by auto
      then show ?thesis
      proof
        assume l: "l = c # l'"
        from Cons.IH[of l'] Cons obtain b where
          "newline \<notin> set b" "l' = b @ [newline] \<or> (l' = b \<and> b \<noteq> [])" by auto
        with False l show ?thesis by (intro exI[of _ "c # b"]) auto
      next
        assume "l \<in> set ls'"
        with Cons.IH[of l] Cons show ?thesis by auto
      qed
    qed
  qed
qed

lemma rstrip_nl_plain: "newline \<notin> set b \<Longrightarrow> rstrip_nl b = b"
proof -
  assume a: "newline \<notin> set b"
  have "dropWhile (\<lambda>c. c = newline) (rev b) = rev b"
    using a by (cases "rev b") (auto simp: rev_eq_Cons_iff)
  then show ?thesis by (simp add: rstrip_nl_def rstrip_with_def)
qed

lemma rstrip_nl_terminated: "newline \<notin> set b \<Longrightarrow> rstrip_nl (b @ [newline]) = b"
  using rstrip_nl_plain[of b] by (simp add: rstrip_nl_def rstrip_with_def)

lemma date_line_append: "date_line b \<Longrightarrow> date_line (b @ x)"
  by (auto simp: date_line_def nth_append)

lemma date_line_terminated: "date_line (b @ [newline]) \<longleftrightarrow> date_line b"
proof
  assume a: "date_line (b @ [newline])"
  show "date_line b"
  proof (cases "9 \<le> length b")
    case True
    with a show ?thesis by (auto simp: date_line_def nth_append)
  next
    case False
    with a have "length b = 8" by (auto simp: date_line_def)
    with a show ?thesis by (auto simp: date_line_def nth_append newline_def)
  qed
qed (rule date_line_append)

lemma file_line_body:
  assumes "l \<in> set (file_lines t)"
  shows "newline \<notin> set (rstrip_nl l)" and "date_line (rstrip_nl l) \<longleftrightarrow> date_line l"
    and "date_line (rstrip_nl l @ [newline]) \<longleftrightarrow> date_line l"
proof -
  from file_lines_shape[OF assms] obtain b where
    b: "newline \<notin> set b" "l = b @ [newline] \<or> (l = b \<and> b \<noteq> [])" by blast
  then have r: "rstrip_nl l = b"
    by (auto simp: rstrip_nl_plain rstrip_nl_terminated)
  show "newline \<notin> set (rstrip_nl l)" using b r by simp
  show "date_line (rstrip_nl l) \<longleftrightarrow> date_line l"
  proof (cases "l = b @ [newline]")
    case True
    then show ?thesis unfolding r using date_line_terminated[of b] by simp
  next
    case False
    with b have "l = b" by auto
    then show ?thesis using r by simp
  qed
  then show "date_line (rstrip_nl l @ [newline]) \<longleftrightarrow> date_line l"
    by (simp add: date_line_terminated)
qed

lemma make_row_raw: "make_row l = Inr rw \<Longrightarrow> raw rw = rstrip_nl l"
  by (auto simp: make_row_def Let_def split: if_splits sum.splits)

lemma read_loop_result:
  "read_loop header rows ls = Inr (header', rows') \<Longrightarrow>
   header' = header @ map rstrip_nl (filter (\<lambda>l. \<not> date_line l) ls)
   \<and> map Inr rows' = map Inr rows @ map make_row (filter date_line ls)"
proof (induction ls arbitrary: header rows)
  case Nil
  then show ?case by simp
next
  case (Cons a ls)
  show ?case
  proof (cases "date_line a")
    case True
    with Cons.prems obtain r where r: "make_row a = Inr r"
      and "read_loop header (rows @ [r]) ls = Inr (header', rows')"
      by (auto split: sum.splits)
    from Cons.IH[OF this(2)] True r show ?thesis by simp
  next
    case False
    with Cons.prems have "read_loop (header @ [rstrip_nl a]) rows ls = Inr (header', rows')"
      by simp
    from Cons.IH[OF this] False show ?thesis by simp
  qed
qed

lemma map_result_Inr: "map_result f xs = Inr ys \<Longrightarrow> map Inr ys = map f xs"
  by (induction xs arbitrary: ys) (auto split: sum.splits)

lemma map_result_all:
  "\<forall>x\<in>set xs. f x = Inr (g x) \<Longrightarrow> map_result f xs = Inr (map g xs)"
  by (induction xs) simp_all

lemma digit_char_not_newline: "digit_char n \<noteq> newline"
proof
  assume "digit_char n = newline"
  then have "(of_char (digit_char n) :: nat) = of_char newline" by simp
  moreover have "(of_char (digit_char n) :: nat) = 48 + n mod 10"
    unfolding digit_char_def by (simp add: of_char_of)
  moreover have "(of_char newline :: nat) = 10" by (simp add: newline_def)
  ultimately show False by simp
qed

lemma show_nat_no_newline: "newline \<notin> set (show_nat n)"
proof (induction n rule: show_nat.induct)
  case (1 n)
  show ?case
  proof (cases "n < 10")
    case True
    then have "show_nat n = [digit_char n]" by (subst show_nat.simps) simp
    then show ?thesis using digit_char_not_newline[of n] by auto
  next
    case False
    then have "show_nat n = show_nat (n div 10) @ [digit_char n]"
      by (subst show_nat.simps) simp
    then show ?thesis using 1[OF False] digit_char_not_newline[of n] by auto
  qed
qed

lemma plain_chars_not_newline:
  "CHR '' '' \<noteq> newline" "CHR ''-'' \<noteq> newline" "CHR ''.'' \<noteq> newline"
  "CHR '','' \<noteq> newline"
  "newline \<notin> set ''nan''" "newline \<notin> set ''inf''" "newline \<notin> set ''-inf''"
  by (simp_all add: newline_def)

lemma pad_left_no_newline: "newline \<notin> set s \<Longrightarrow> newline \<notin> set (pad_left w s)"
  using plain_chars_not_newline(1) by (auto simp: pad_left_def)

lemma fixed2_no_newline: "newline \<notin> set (fixed2 q)"
  using plain_chars_not_newline(2,3) digit_char_not_newline digit_char_not_newline[THEN not_sym]
    show_nat_no_newline
  by (auto simp: fixed2_def Let_def)

lemma format_no_newline: "newline \<notin> set (format_6_2f v)"
  by (cases v)
     (simp_all add: pad_left_no_newline fixed2_no_newline plain_chars_not_newline(5-7)
        del: set_simps)

lemma join_no_newline:
  "newline \<notin> set sep \<Longrightarrow> \<forall>x\<in>set xs. newline \<notin> set x \<Longrightarrow> newline \<notin> set (join sep xs)"
  by (induction sep xs rule: join.induct) auto

text \<open>The lines of an output file.\<close>

lemma write_output_lines:
  assumes "\<forall>h\<in>set header. newline \<notin> set h"
      and "\<forall>rv\<in>set recs. newline \<notin> set (raw (fst rv))"
  shows "file_lines (write_output header recs)
         = map (\<lambda>h. h @ [newline]) header
           @ map (\<lambda>rv. (raw (fst rv) @ '', '' @ join '', '' (map format_6_2f (snd rv))) @ [newline]) recs"
proof -
  let ?body = "\<lambda>rv. raw (fst rv) @ '', '' @ join '', '' (map format_6_2f (snd rv))"
  have w: "write_output header recs
           = concat (map (\<lambda>l. l @ [newline]) (header @ map ?body recs))"
    by (simp add: write_output_def write_record_def[abs_def] comp_def)
  have "\<forall>l\<in>set (header @ map ?body recs). newline \<notin> set l"
  proof
    fix l assume "l \<in> set (header @ map ?body recs)"
    then consider "l \<in> set header" | rv where "rv \<in> set recs" "l = ?body rv" by auto
    then show "newline \<notin> set l"
    proof cases
      case 1
      with assms(1) show ?thesis by blast
    next
      case 2
      have "newline \<notin> set (join '', '' (map format_6_2f (snd rv)))"
        by (rule join_no_newline) (auto simp: newline_def format_no_newline[unfolded newline_def])
      with 2 assms(2) show ?thesis by (auto simp: newline_def)
    qed
  qed
  from file_lines_terminated[OF this] show ?thesis unfolding w by simp
qed

lemma write_output_header_lines:
  assumes h: "\<forall>h\<in>set header. newline \<notin> set h \<and> \<not> date_line (h @ [newline])"
      and r: "\<forall>rv\<in>set recs. newline \<notin> set (raw (fst rv)) \<and> date_line (raw (fst rv))"
  shows "header_lines (write_output header recs) = header"
    and "fix_lines (write_output header recs)
         = map (\<lambda>rv. raw (fst rv) @ '', '' @ join '', '' (map format_6_2f (snd rv))) recs"
proof -
  let ?body = "\<lambda>rv. raw (fst rv) @ '', '' @ join '', '' (map format_6_2f (snd rv))"
  have fl: "file_lines (write_output header recs)
            = map (\<lambda>h. h @ [newline]) header @ map (\<lambda>rv. ?body rv @ [newline]) recs"
    using write_output_lines[of header recs] h r by simp
  have nb: "newline \<notin> set (?body rv)" if "rv \<in> set recs" for rv
  proof -
    have "newline \<notin> set (join '', '' (map format_6_2f (snd rv)))"
      by (rule join_no_newline) (auto simp: newline_def format_no_newline[unfolded newline_def])
    with that r show ?thesis by (auto simp: newline_def)
  qed
  have db: "date_line (?body rv @ [newline])" if "rv \<in> set recs" for rv
    using that r date_line_append[of "raw (fst rv)"] by simp
  have f1: "filter (\<lambda>l. \<not> date_line l) (map (\<lambda>h. h @ [newline]) header)
            = map (\<lambda>h. h @ [newline]) header"
    using h by (auto simp: filter_id_conv)
  have f2: "filter (\<lambda>l. \<not> date_line l) (map (\<lambda>rv. ?body rv @ [newline]) recs) = []"
    using db by (auto simp: filter_empty_conv)
  have f3: "filter date_line (map (\<lambda>h. h @ [newline]) header) = []"
    using h by (auto simp: filter_empty_conv)
  have f4: "filter date_line (map (\<lambda>rv. ?body rv @ [newline]) recs)
            = map (\<lambda>rv. ?body rv @ [newline]) recs"
    using db by (auto simp: filter_id_conv)
  have s1: "map rstrip_nl (map (\<lambda>h. h @ [newline]) header) = header"
    using h by (auto simp: rstrip_nl_terminated intro: map_idI)
  have s2: "map rstrip_nl (map (\<lambda>rv. ?body rv @ [newline]) recs) = map ?body recs"
    using nb rstrip_nl_terminated by (auto simp del: append_assoc)
  show "header_lines (write_output header recs) = header"
    unfolding header_lines_def fl filter_append f1 f2 using s1 by simp
  show "fix_lines (write_output header recs) = map ?body recs"
    unfolding fix_lines_def fl filter_append f3 f4 using s2 by simp
qed


lemma window_nth: "k < 31 \<Longrightarrow> window ! k = int k - 15"
  unfolding window_def by (subst nth_upto) auto

lemma window_length: "length window = 31"
  by (simp add: window_def)

lemma window_with_values:
  assumes "window_with cfg imgcol rw = Inr vs"
  shows "window_values (sample_with cfg imgcol) rw vs"
proof -
  from assms obtain base where base: "strptime_ymd (ymd rw) = Inr base"
    and mr: "map_result
               (\<lambda>off. case add_days base off of
                        Inl e \<Rightarrow> Inl e
                      | Inr dt \<Rightarrow> sample_with cfg imgcol (strftime_ymd dt) (lon rw) (lat rw))
               window = Inr vs"
    by (auto simp: window_with_def split: sum.splits)
  let ?f = "\<lambda>off. case add_days base off of
                     Inl e \<Rightarrow> Inl e
                   | Inr dt \<Rightarrow> sample_with cfg imgcol (strftime_ymd dt) (lon rw) (lat rw)"
  from map_result_Inr[OF mr] have m: "map Inr vs = map ?f window" .
  then have len: "length vs = 31"
    using window_length by (metis length_map)
  have "case add_days base (int k - 15) of
          Inl e \<Rightarrow> False
        | Inr dt \<Rightarrow> sample_with cfg imgcol (strftime_ymd dt) (lon rw) (lat rw) = Inr (vs ! k)"
    if "k < 31" for k
  proof -
    have "(map Inr vs :: (py_error + pyfloat) list) ! k = map ?f window ! k" using m by simp
    then have "?f (int k - 15) = Inr (vs ! k)"
      using that len window_length window_nth[OF that] by simp
    then show ?thesis by (auto split: sum.splits)
  qed
  then show ?thesis
    using base len by (simp add: window_values_def list_all_iff)
qed

lemma extract_with_result:
  assumes "extract_with cfg ee text = Inr out"
  shows "\<exists>rows wins.
           rows \<noteq> []
           \<and> map Inr rows = map make_row (filter date_line (file_lines text))
           \<and> map Inr wins = map (window_with cfg (ee (collection cfg))) rows
           \<and> out = write_output (header_lines text) (zip rows wins)"
proof -
  from assms obtain header rows wins where
    rt: "read_track text = Inr (header, rows)"
    and ap: "apply_rows (window_with cfg (ee (collection cfg))) rows = Inr wins"
    and out: "out = write_output header (zip rows wins)"
    by (auto simp: extract_with_def split: sum.splits prod.splits)
  from read_loop_result[OF rt[unfolded read_track_def]]
  have h: "header = header_lines text"
    and r: "map Inr rows = map make_row (filter date_line (file_lines text))"
    by (simp_all add: header_lines_def)
  from ap have ne: "rows \<noteq> []"
    and mr: "map_result (window_with cfg (ee (collection cfg))) rows = Inr wins"
    by (auto simp: apply_rows_def split: if_splits)
  from map_result_Inr[OF mr] h r ne out show ?thesis by blast
qed

lemma extract_with_lines:
  assumes "extract_with cfg ee text = Inr out"
  shows "header_lines out = header_lines text
         \<and> length (fix_lines out) = length (fix_lines text)
         \<and> (\<forall>i<length (fix_lines text). \<exists>rw vs.
               make_row (filter date_line (file_lines text) ! i) = Inr rw
               \<and> window_values (sample_with cfg (ee (collection cfg))) rw vs
               \<and> fix_lines out ! i
                   = fix_lines text ! i @ '', '' @ join '', '' (map format_6_2f vs))"
proof -
  let ?fl = "filter date_line (file_lines text)"
  let ?body = "\<lambda>rv. raw (fst rv) @ '', '' @ join '', '' (map format_6_2f (snd rv))"
  from extract_with_result[OF assms] obtain rows wins where
    rows: "map Inr rows = map make_row ?fl"
    and wins: "map Inr wins = map (window_with cfg (ee (collection cfg))) rows"
    and out: "out = write_output (header_lines text) (zip rows wins)"
    by blast
  have lr: "length rows = length ?fl" using rows by (metis length_map)
  have lw: "length wins = length rows" using wins by (metis length_map)
  have mk: "make_row (?fl ! i) = Inr (rows ! i)" if "i < length ?fl" for i
  proof -
    have "(map Inr rows :: (py_error + row) list) ! i = map make_row ?fl ! i"
      using rows by simp
    then show ?thesis using that lr by simp
  qed
  have wn: "window_with cfg (ee (collection cfg)) (rows ! i) = Inr (wins ! i)"
    if "i < length ?fl" for i
  proof -
    have "(map Inr wins :: (py_error + pyfloat list) list) ! i
          = map (window_with cfg (ee (collection cfg))) rows ! i"
      using wins by simp
    then show ?thesis using that lr lw by simp
  qed
  have rawi: "raw (rows ! i) = rstrip_nl (?fl ! i)" if "i < length ?fl" for i
    using make_row_raw[OF mk[OF that]] .
  have mem: "?fl ! i \<in> set (file_lines text) \<and> date_line (?fl ! i)" if "i < length ?fl" for i
    using nth_mem[OF that] by simp
  have hd: "\<forall>h\<in>set (header_lines text). newline \<notin> set h \<and> \<not> date_line (h @ [newline])"
    using file_line_body(1,3) by (auto simp: header_lines_def)
  have rc: "\<forall>rv\<in>set (zip rows wins). newline \<notin> set (raw (fst rv)) \<and> date_line (raw (fst rv))"
  proof
    fix rv assume "rv \<in> set (zip rows wins)"
    then obtain i where i: "i < length rows" "fst rv = rows ! i"
      by (auto simp: in_set_zip)
    then have "i < length ?fl" using lr by simp
    from rawi[OF this] mem[OF this] file_line_body(1,2)[of "?fl ! i" "text"] i
    show "newline \<notin> set (raw (fst rv)) \<and> date_line (raw (fst rv))" by simp
  qed
  from write_output_header_lines[OF hd rc]
  have H: "header_lines out = header_lines text"
    and F: "fix_lines out = map ?body (zip rows wins)"
    unfolding out by simp_all
  have lf: "length (fix_lines text) = length ?fl" by (simp add: fix_lines_def)
  have len: "length (fix_lines out) = length (fix_lines text)"
    using F lr lw lf by simp
  have each: "\<exists>rw vs.
               make_row (?fl ! i) = Inr rw
               \<and> window_values (sample_with cfg (ee (collection cfg))) rw vs
               \<and> fix_lines out ! i
                   = fix_lines text ! i @ '', '' @ join '', '' (map format_6_2f vs)"
    if "i < length (fix_lines text)" for i
  proof -
    from that lf have i: "i < length ?fl" by simp
    have "fix_lines out ! i = ?body (rows ! i, wins ! i)"
      using F i lr lw by simp
    moreover have "fix_lines text ! i = rstrip_nl (?fl ! i)"
      using i by (simp add: fix_lines_def)
    ultimately have "fix_lines out ! i
        = fix_lines text ! i @ '', '' @ join '', '' (map format_6_2f (wins ! i))"
      using rawi[OF i] by simp
    with mk[OF i] window_with_values[OF wn[OF i]] show ?thesis by blast
  qed
  from H len each show ?thesis by blast
qed

subsection \<open>Dates of the window, their rendering and the constant source\<close>

lemma next_day_ok:
  "year d < 9999 \<Longrightarrow> \<exists>d1. next_day d = Some d1 \<and> year d \<le> year d1 \<and> year d1 \<le> year d + 1"
  by (simp add: next_day_def)

lemma prev_day_ok: "1 < year d \<Longrightarrow> \<exists>d1. prev_day d = Some d1 \<and> year d - 1 \<le> year d1"
  by (simp add: prev_day_def)

lemma step_next_ok:
  "year d + n \<le> 9999 \<Longrightarrow> \<exists>d'. step_days next_day n d = Some d' \<and> year d \<le> year d'"
proof (induction n arbitrary: d)
  case 0
  then show ?case by simp
next
  case (Suc n)
  then have y: "year d < 9999" by simp
  from next_day_ok[OF this] obtain d1 where
    d1: "next_day d = Some d1" "year d \<le> year d1" "year d1 \<le> year d + 1"
    by blast
  with Suc.prems have "year d1 + n \<le> 9999" by simp
  from Suc.IH[OF this] obtain d' where "step_days next_day n d1 = Some d'" "year d1 \<le> year d'"
    by blast
  with d1 show ?case by simp
qed

lemma step_prev_ok:
  "n < year d \<Longrightarrow> \<exists>d'. step_days prev_day n d = Some d' \<and> year d - n \<le> year d'"
proof (induction n arbitrary: d)
  case 0
  then show ?case by simp
next
  case (Suc n)
  then have y: "1 < year d" by simp
  from prev_day_ok[OF this] obtain d1 where d1: "prev_day d = Some d1" "year d - 1 \<le> year d1"
    by blast
  with Suc.prems have "n < year d1" by simp
  from Suc.IH[OF this] obtain d' where "step_days prev_day n d1 = Some d'" "year d1 - n \<le> year d'"
    by blast
  with d1 show ?case by simp
qed

lemma add_days_window:
  assumes "15 < year base" "year base + 15 \<le> 9999" "off \<in> set window"
  shows "\<exists>dt. add_days base off = Inr dt \<and> year base - 15 \<le> year dt"
proof -
  from assms(3) have o: "- 15 \<le> off" "off \<le> 15" by (auto simp: window_def)
  show ?thesis
  proof (cases "0 \<le> off")
    case True
    with o assms(2) have "year base + nat off \<le> 9999" by simp
    from step_next_ok[OF this] obtain d' where
      "step_days next_day (nat off) base = Some d'" "year base \<le> year d'" by blast
    with True show ?thesis by (simp add: add_days_def)
  next
    case False
    with o assms(1) have n: "nat (- off) < year base" "nat (- off) \<le> 15" by simp_all
    from step_prev_ok[OF n(1)] obtain d' where
      "step_days prev_day (nat (- off)) base = Some d'" "year base - nat (- off) \<le> year d'"
      by blast
    with False n(2) show ?thesis by (simp add: add_days_def)
  qed
qed



text \<open>Decimal digits, and the conversions of a text of digits.\<close>

lemma of_char_digit_char: "(of_char (digit_char n) :: nat) = 48 + n mod 10"
  unfolding digit_char_def by (simp add: of_char_of)

lemma isdecimal_iff: "isdecimal c \<longleftrightarrow> 48 \<le> (of_char c :: nat) \<and> (of_char c :: nat) \<le> 57"
proof
  assume "isdecimal c"
  then show "48 \<le> (of_char c :: nat) \<and> (of_char c :: nat) \<le> 57"
    by (auto simp: isdecimal_def)
next
  assume a: "48 \<le> (of_char c :: nat) \<and> (of_char c :: nat) \<le> 57"
  define k where "k = (of_char c :: nat)"
  have c: "c = char_of k" by (simp add: k_def)
  from a have "k = 48 \<or> k = 49 \<or> k = 50 \<or> k = 51 \<or> k = 52 \<or> k = 53 \<or> k = 54
               \<or> k = 55 \<or> k = 56 \<or> k = 57"
    unfolding k_def[symmetric] by arith
  then show "isdecimal c"
    unfolding c isdecimal_def by (auto simp: char_of_eq_iff)
qed

lemma digit_char_decimal: "isdecimal (digit_char n)"
  unfolding isdecimal_iff of_char_digit_char by simp


lemma show_nat_small: "n < 10 \<Longrightarrow> show_nat n = [digit_char n]"
  by (subst show_nat.simps) simp

lemma show_nat_large: "\<not> n < 10 \<Longrightarrow> show_nat n = show_nat (n div 10) @ [digit_char n]"
  by (subst show_nat.simps) simp

lemma show_nat_decimal: "\<forall>c\<in>set (show_nat n). isdecimal c"
proof (induction n rule: show_nat.induct)
  case (1 n)
  show ?case
  proof (cases "n < 10")
    case True
    then show ?thesis by (simp add: show_nat_small digit_char_decimal)
  next
    case False
    then show ?thesis using 1[OF False] by (simp add: show_nat_large digit_char_decimal)
  qed
qed

lemma show_nat_nonempty: "1 \<le> length (show_nat n)"
  by (cases "n < 10") (simp_all add: show_nat_small show_nat_large)

lemma show_nat_length_3: "100 \<le> n \<Longrightarrow> 3 \<le> length (show_nat n)"
proof -
  assume a: "100 \<le> n"
  then have "\<not> n < 10" "\<not> n div 10 < 10" by auto
  then have "show_nat n = show_nat (n div 10 div 10) @ [digit_char (n div 10), digit_char n]"
    by (simp add: show_nat_large)
  then show ?thesis using show_nat_nonempty[of "n div 10 div 10"] by simp
qed





lemma pad2_decimal: "\<forall>c\<in>set (pad2 n). isdecimal c"
  using show_nat_decimal[of n] by (auto simp: pad2_def isdecimal_def)

lemma pad2_length: "2 \<le> length (pad2 n)"
proof (cases "n < 10")
  case True
  then show ?thesis using show_nat_nonempty[of n] by (simp add: pad2_def)
next
  case False
  then have "show_nat n = show_nat (n div 10) @ [digit_char n]" by (rule show_nat_large)
  then show ?thesis using False show_nat_nonempty[of "n div 10"] by (simp add: pad2_def)
qed



lemma decimal_char_facts:
  assumes "isdecimal c"
  shows "\<not> numeric_space c" "c \<noteq> CHR ''_''" "c \<noteq> CHR ''-''" "c \<noteq> CHR ''+''"
  using assms by (auto simp: isdecimal_def numeric_space_def)

lemma py_int_digits:
  assumes "s \<noteq> []" and all: "\<forall>c\<in>set s. isdecimal c"
  shows "py_int s = Inr (int (digits_val s))"
proof -
  from assms(1) have hl: "hd s \<in> set s" "last s \<in> set s" by simp_all
  have strip: "numeric_strip s = s"
    using assms(1) hl all decimal_char_facts(1) by (intro numeric_strip_id) blast+
  have us: "underscores_ok None s"
    using all decimal_char_facts(2) by (intro underscores_ok_none) auto
  have flt: "filter (\<lambda>c. c \<noteq> CHR ''_'') s = s"
    using all decimal_char_facts(2) by (auto simp: filter_id_conv)
  have sign: "split_sign s = (False, s)"
    using assms(1) hl(1) all decimal_char_facts(3,4) by (cases s) auto
  have la: "list_all (\<lambda>c. isdecimal c \<or> c = CHR ''_'') s"
    using all by (simp add: list_all_iff)
  show ?thesis
    using assms(1) strip us flt sign la by (simp add: py_int_def)
qed

lemma py_int_Nil: "py_int [] = Inl ValueError"
  by (simp add: py_int_def numeric_strip_Nil)

text \<open>
  The sampler reads a day from the rendering of every date from the year 100 on; from
  the year 1000 on it reads the date that was rendered.
\<close>

lemma ymd_ints_strftime:
  assumes "100 \<le> year dt"
  shows "\<exists>y m d. ymd_ints (strftime_ymd dt) = Inr (y, m, d)"
proof -
  let ?s = "strftime_ymd dt"
  have dec: "\<forall>c\<in>set ?s. isdecimal c"
    using show_nat_decimal pad2_decimal by (auto simp: strftime_ymd_def)
  have len: "7 \<le> length ?s"
    using show_nat_length_3[OF assms] pad2_length[of "month dt"] pad2_length[of "day dt"]
    by (simp add: strftime_ymd_def)
  have a: "take 4 ?s \<noteq> []" "take 2 (drop 4 ?s) \<noteq> []" "drop 6 ?s \<noteq> []"
    using len by auto
  have b: "\<forall>c\<in>set (take 4 ?s). isdecimal c" "\<forall>c\<in>set (take 2 (drop 4 ?s)). isdecimal c"
    "\<forall>c\<in>set (drop 6 ?s). isdecimal c"
    using dec by (auto dest: in_set_takeD in_set_dropD)
  show ?thesis
    unfolding ymd_ints_def
    by (simp add: py_int_digits[OF a(1) b(1)] py_int_digits[OF a(2) b(2)]
          py_int_digits[OF a(3) b(3)])
qed


lemma sample_with_constant:
  "ymd_ints s = Inr (y, m, d) \<Longrightarrow>
   sample_with cfg (constant_source r) s lo la = Inr (Fin (r * multiplier cfg + offset cfg))"
  by (simp add: sample_with_def constant_source_def)

lemma sample_with_constant_value:
  "sample_with cfg (constant_source r) s lo la = Inr v \<Longrightarrow>
   v = Fin (r * multiplier cfg + offset cfg)"
  by (auto simp: sample_with_def constant_source_def split: sum.splits)

lemma window_with_constant:
  assumes "strptime_ymd (ymd rw) = Inr base" "114 < year base" "year base + 15 \<le> 9999"
  shows "window_with cfg (constant_source r) rw
         = Inr (replicate 31 (Fin (r * multiplier cfg + offset cfg)))"
proof -
  let ?v = "Fin (r * multiplier cfg + offset cfg)"
  let ?f = "\<lambda>off. case add_days base off of
                     Inl e \<Rightarrow> Inl e
                   | Inr dt \<Rightarrow> sample_with cfg (constant_source r) (strftime_ymd dt) (lon rw) (lat rw)"
  have "\<forall>off\<in>set window. ?f off = Inr ?v"
  proof
    fix off assume off: "off \<in> set window"
    from assms(2) have "15 < year base" by simp
    from add_days_window[OF this assms(3) off] obtain dt where
      dt: "add_days base off = Inr dt" "year base - 15 \<le> year dt" by blast
    with assms(2) have "100 \<le> year dt" by simp
    from ymd_ints_strftime[OF this] obtain y m d where
      "ymd_ints (strftime_ymd dt) = Inr (y, m, d)" by blast
    from sample_with_constant[OF this] dt(1) show "?f off = Inr ?v" by simp
  qed
  then have "map_result ?f window = Inr (map (\<lambda>off. ?v) window)"
    by (rule map_result_all)
  then show ?thesis
    using assms(1) window_length by (simp add: window_with_def map_replicate_const)
qed

lemma extract_with_constant:
  assumes rt: "read_track text = Inr (header, rows)" and ne: "rows \<noteq> []"
      and dates: "\<forall>rw\<in>set rows. \<exists>base. strptime_ymd (ymd rw) = Inr base
                    \<and> 114 < year base \<and> year base + 15 \<le> 9999"
  shows "extract_with cfg (\<lambda>name. constant_source r) text
         = Inr (write_output header
                  (map (\<lambda>rw. (rw, replicate 31 (Fin (r * multiplier cfg + offset cfg)))) rows))"
proof -
  let ?w = "replicate 31 (Fin (r * multiplier cfg + offset cfg))"
  have "\<forall>rw\<in>set rows. window_with cfg (constant_source r) rw = Inr ?w"
    using dates window_with_constant by blast
  then have "map_result (window_with cfg (constant_source r)) rows = Inr (map (\<lambda>rw. ?w) rows)"
    by (rule map_result_all)
  moreover have "zip rows (map (\<lambda>rw. ?w) rows) = map (\<lambda>rw. (rw, ?w)) rows"
    by (induction rows) simp_all
  ultimately show ?thesis
    using rt ne by (simp add: extract_with_def apply_rows_def)
qed

lemma join_replicate:
  "sep @ join sep (replicate (Suc n) x) = concat (replicate (Suc n) (sep @ x))"
  by (induction n) simp_all

lemma split_comma_nonempty: "split_comma s \<noteq> []"
  by (induction s) (auto split: list.splits)

lemma split_comma_append: "split_comma (a @ CHR '','' # b) = split_comma a @ split_comma b"
proof (induction a)
  case Nil
  show ?case by simp
next
  case (Cons c a)
  obtain f fs where "split_comma a = f # fs"
    using split_comma_nonempty[of a] by (cases "split_comma a") auto
  with Cons show ?case by simp
qed

lemma split_comma_plain: "CHR '','' \<notin> set v \<Longrightarrow> split_comma v = [v]"
  by (induction v) auto

lemma split_comma_columns:
  "CHR '','' \<notin> set v \<Longrightarrow>
   split_comma (line @ concat (replicate n (CHR '','' # v))) = split_comma line @ replicate n v"
proof (induction n arbitrary: line)
  case 0
  show ?case by simp
next
  case (Suc n)
  have "split_comma ((line @ CHR '','' # v) @ concat (replicate n (CHR '','' # v)))
        = split_comma (line @ CHR '','' # v) @ replicate n v"
    by (rule Suc.IH[OF Suc.prems])
  then show ?case
    using Suc.prems by (simp add: split_comma_append split_comma_plain replicate_append_same)
qed

lemma format_five: "format_6_2f (Fin 5) = ''  5.00''"
  by code_simp


subsection \<open>When an extractor completes\<close>







subsection \<open>What the extractors write\<close>

lemma sample_track_read:
  "read_track sample_track
   = Inr ([''Track AL13''],
          [\<lparr>raw = fix_start @ '', 65, 987'', ymd = ''19840901'',
            lat = Fin (67 / 5), lon = Fin (- (827 / 10))\<rparr>])"
  by code_simp

lemma sample_track_date: "strptime_ymd ''19840901'' = Inr (Date 1984 9 1)"
  by code_simp

lemma sample_track_fix_lines: "fix_lines sample_track = [fix_start @ '', 65, 987'']"
  by code_simp



lemma main_sst_sample: "main_sst (\<lambda>name. constant_source 500) sample_track = Inr sample_output"
proof -
  have c: "multiplier oisst_config = 1 / 100" "offset oisst_config = 0"
    by (simp_all add: oisst_config_def)
  have j: "'', '' @ join '', '' (replicate 31 ''  5.00'') = concat (replicate 31 '',   5.00'')"
    using join_replicate[of "'', ''" 30 "''  5.00''"] by simp
  have "extract_with oisst_config (\<lambda>name. constant_source 500) sample_track
        = Inr (write_output [''Track AL13'']
                 (map (\<lambda>rw. (rw, replicate 31 (Fin (500 * multiplier oisst_config
                                                      + offset oisst_config))))
                    [\<lparr>raw = fix_start @ '', 65, 987'', ymd = ''19840901'',
                      lat = Fin (67 / 5), lon = Fin (- (827 / 10))\<rparr>]))"
    by (rule extract_with_constant[OF sample_track_read]) (simp_all add: sample_track_date)
  then show ?thesis
    using j by (simp add: main_sst_config c write_output_def write_record_def format_five
                  sample_output_def del: format_6_2f.simps)
qed





text \<open>
  C4, as the code has it. With a source that returns the raw value 500 everywhere,
  every fix line of the output is the input line, unchanged, followed by 31 times
  \<open>", "\<close> and the six characters \<open>"  5.00"\<close> (width 6, two decimals): split at the
  commas, its last 31 columns are \<open>"   5.00"\<close> each.
\<close>

theorem constant_500_columns:
  assumes "main_sst (\<lambda>name. constant_source 500) text = Inr out"
      and "i < length (fix_lines text)"
  shows "fix_lines out ! i = fix_lines text ! i @ concat (replicate 31 '',   5.00'')
         \<and> drop (length (split_comma (fix_lines out ! i)) - 31) (split_comma (fix_lines out ! i))
             = replicate 31 ''   5.00''"
proof -
  from extract_with_lines[OF assms(1)[unfolded main_sst_config]] assms(2)
  obtain rw vs where
    wv: "window_values (sample_with oisst_config (constant_source 500)) rw vs"
    and ln: "fix_lines out ! i = fix_lines text ! i @ '', '' @ join '', '' (map format_6_2f vs)"
    by blast
  have five: "v = Fin 5"
    if "sample_with oisst_config (constant_source 500) s lo la = Inr v" for s lo la v
    using sample_with_constant_value[OF that] by (simp add: oisst_config_def)
  from wv obtain base where len: "length vs = 31"
    and all: "\<forall>k\<in>set [0 ..< 31]. (case add_days base (int k - 15) of
                Inl e \<Rightarrow> False
              | Inr dt \<Rightarrow> sample_with oisst_config (constant_source 500) (strftime_ymd dt)
                            (lon rw) (lat rw)
                          = Inr (vs ! k))"
    by (auto simp: window_values_def list_all_iff split: sum.splits)
  have each: "\<forall>k<31. vs ! k = Fin 5"
  proof (intro allI impI)
    fix k :: nat assume "k < 31"
    then have "k \<in> set [0 ..< 31]" by simp
    with all have "case add_days base (int k - 15) of
                Inl e \<Rightarrow> False
              | Inr dt \<Rightarrow> sample_with oisst_config (constant_source 500) (strftime_ymd dt)
                            (lon rw) (lat rw)
                          = Inr (vs ! k)"
      by blast
    then show "vs ! k = Fin 5"
      by (cases "add_days base (int k - 15)") (auto dest: five)
  qed
  with len have vs: "vs = replicate 31 (Fin 5)"
    by (simp add: list_eq_iff_nth_eq)
  have j: "'', '' @ join '', '' (replicate 31 ''  5.00'') = concat (replicate 31 '',   5.00'')"
    using join_replicate[of "'', ''" 30 "''  5.00''"] by simp
  have line: "fix_lines out ! i = fix_lines text ! i @ concat (replicate 31 '',   5.00'')"
    unfolding ln vs using j by (simp add: format_five del: format_6_2f.simps)
  have "split_comma (fix_lines out ! i) = split_comma (fix_lines text ! i) @ replicate 31 ''   5.00''"
    unfolding line using split_comma_columns[of "''   5.00''" "fix_lines text ! i" 31] by simp
  then show ?thesis using line by simp
qed

theorem constant_500_columns_witness:
  "main_sst (\<lambda>name. constant_source 500) sample_track = Inr sample_output
   \<and> fix_lines sample_track = [fix_start @ '', 65, 987'']
   \<and> fix_lines sample_output ! 0 = fix_start @ '', 65, 987'' @ concat (replicate 31 '',   5.00'')"
  using constant_500_columns[OF main_sst_sample, of 0] sample_track_fix_lines main_sst_sample
  by simp

text \<open>
  C4 as stated fails: for the fix line of the claim and the constant raw value 500
  no column of the output line is the five characters \<open>" 5.00"\<close>; each of the 31
  trailing columns is \<open>"   5.00"\<close>.
\<close>

theorem constant_500_columns_counterexample:
  "main_sst (\<lambda>name. constant_source 500) sample_track = Inr sample_output
   \<and> '' 5.00'' \<notin> set (split_comma (fix_lines sample_output ! 0))
   \<and> drop (length (split_comma (fix_lines sample_output ! 0)) - 31)
        (split_comma (fix_lines sample_output ! 0)) = replicate 31 ''   5.00''"
proof -
  have "'' 5.00'' \<notin> set (split_comma (fix_lines sample_output ! 0))
   \<and> drop (length (split_comma (fix_lines sample_output ! 0)) - 31)
        (split_comma (fix_lines sample_output ! 0)) = replicate 31 ''   5.00''"
    by code_simp
  with main_sst_sample show ?thesis by simp
qed


subsection \<open>Sampling failures\<close>















end
